theory Spec2Isabelle
  imports Complex_Main
begin

section \<open>JavaScript values used by the server\<close>

text \<open>
  An \<open>Error\<close> object is identified with its message, the only part the server reads
  or tests. A function that throws returns \<open>Inl (Error msg)\<close>.
\<close>

datatype js_error = Error string

text \<open>
  \<open>String.prototype.split\<close> with a one-character separator: the string is cut at every
  occurrence of the separator; an empty string gives one empty piece.
\<close>

fun js_split :: "char \<Rightarrow> string \<Rightarrow> string list" where
  "js_split sep [] = [[]]"
| "js_split sep (c # cs) =
     (if c = sep then [] # js_split sep cs
      else (case js_split sep cs of
              [] \<Rightarrow> [[c]]
            | w # ws \<Rightarrow> (c # w) # ws))"

text \<open>
  The characters matched by the regular expression class \<open>\s\<close> and removed by
  \<open>String.prototype.trim\<close>, among the 8-bit characters of the model: tab, line feed,
  vertical tab, form feed, carriage return, space and no-break space.
\<close>

definition is_space :: "char \<Rightarrow> bool" where
  "is_space c \<longleftrightarrow> of_char c \<in> {9, 10, 11, 12, 13, 32, 160 :: nat}"

definition trim :: "string \<Rightarrow> string" where
  "trim s = rev (dropWhile is_space (rev (dropWhile is_space s)))"

text \<open>
  \<open>String.prototype.toLowerCase\<close> on the ASCII letters; every other character is left
  as it is.
\<close>

definition lower_char :: "char \<Rightarrow> char" where
  "lower_char c =
     (if 65 \<le> (of_char c :: nat) \<and> (of_char c :: nat) \<le> 90
      then char_of (of_char c + 32 :: nat) else c)"

definition toLowerCase :: "string \<Rightarrow> string" where
  "toLowerCase s = map lower_char s"

text \<open>
  \<open>content.split(/\s+/)\<close>: the string is cut at every maximal run of whitespace. The
  current piece is collected in \<open>cur\<close>; whitespace at the start or at the end of the
  string leaves an empty piece there.
\<close>

function split_ws_from :: "string \<Rightarrow> string \<Rightarrow> string list" where
  "split_ws_from cur [] = [cur]"
| "split_ws_from cur (c # cs) =
     (if is_space c then cur # split_ws_from [] (dropWhile is_space cs)
      else split_ws_from (cur @ [c]) cs)"
  by pat_completeness auto
termination
  by (relation "measure (\<lambda>(cur, s). length s)")
     (auto simp: le_imp_less_Suc length_dropWhile_le)

definition split_ws :: "string \<Rightarrow> string list" where
  "split_ws s = split_ws_from [] s"

text \<open>The decimal digits of a number, as a template literal prints \<open>Date.now()\<close>.\<close>

fun digits :: "nat \<Rightarrow> string" where
  "digits n =
     (if n < 10 then [char_of (48 + n)]
      else digits (n div 10) @ [char_of (48 + n mod 10)])"

declare digits.simps [simp del]

definition show_int :: "int \<Rightarrow> string" where
  "show_int i = (if i < 0 then CHR ''-'' # digits (nat (- i)) else digits (nat i))"


section \<open>Tokens: \<open>utils/auth.js\<close>\<close>

text \<open>
  The plain objects that \<open>utils/auth.js\<close> passes around: the \<open>user\<close> given to
  \<open>generateToken\<close>, the payload it signs, and the payload a token decodes to. A field
  that is \<open>undefined\<close> is \<open>None\<close>. \<open>c_und_id\<close> is the field \<open>_id\<close>, \<open>c_id\<close> the
  field \<open>id\<close>. Times are in seconds since the epoch.
\<close>

record claims =
  c_und_id :: "string option"
  c_id :: "string option"
  c_email :: "string option"
  c_username :: "string option"
  c_role :: "string option"
  c_iat :: "int option"
  c_exp :: "int option"
  c_aud :: "string option"
  c_iss :: "string option"

text \<open>
  The \<open>jsonwebtoken\<close> library is outside the repository. A token is modelled
  symbolically: a well-formed token is the payload together with the key that signed
  it, and any other string is \<open>Malformed\<close>. A signature verifies exactly under the key
  that made it.
\<close>

datatype token = Token (tok_payload: claims) (tok_key: string) | Malformed string

record sign_options =
  expiresIn :: string
  issuer :: string
  audience :: string

text \<open>
  \<open>jwt.sign(payload, secret, options)\<close> at clock reading \<open>now\<close> (milliseconds, as
  \<open>Date.now()\<close>). \<open>ms\<close> is the library's reading of a time span in milliseconds
  (\<open>None\<close> when it rejects the string). The library refuses an empty secret, an
  unreadable time span, and an option that the payload already sets; the issue time
  is \<open>payload.iat || now\<close>. Fields that are \<open>undefined\<close> are not serialised,
  which the option fields already express.
\<close>

definition jwt_sign ::
  "(string \<Rightarrow> int option) \<Rightarrow> int \<Rightarrow> claims \<Rightarrow> string \<Rightarrow> sign_options \<Rightarrow> js_error + token" where
  "jwt_sign ms now payload secret opts =
     (if secret = [] then Inl (Error ''secretOrPrivateKey must have a value'')
      else (case ms (expiresIn opts) of
              None \<Rightarrow> Inl (Error ''expiresIn should be a number of seconds or string representing a timespan'')
            | Some lifetime \<Rightarrow>
                if c_exp payload \<noteq> None \<or> c_iss payload \<noteq> None \<or> c_aud payload \<noteq> None
                then Inl (Error ''Bad option: the payload already has this property'')
                else
                  (let iat = (case c_iat payload of
                                None \<Rightarrow> now div 1000
                              | Some t \<Rightarrow> if t = 0 then now div 1000 else t)
                   in Inr (Token (payload\<lparr>c_iat := Some iat,
                                          c_exp := Some (iat + lifetime div 1000),
                                          c_aud := Some (audience opts),
                                          c_iss := Some (issuer opts)\<rparr>) secret))))"

text \<open>
  \<open>jwt.verify(token, secret)\<close> with no options: structure, signature, then expiry
  (a token is expired from the second \<open>exp\<close> on). Issuer and audience are not checked
  because the call passes no options. The not-before claim, which the server never
  sets, is not part of the payload of the model.
\<close>

definition jwt_verify :: "int \<Rightarrow> token \<Rightarrow> string \<Rightarrow> js_error + claims" where
  "jwt_verify now tok secret =
     (case tok of
        Malformed s \<Rightarrow> Inl (Error ''jwt malformed'')
      | Token payload key \<Rightarrow>
          if key \<noteq> secret then Inl (Error ''invalid signature'')
          else (case c_exp payload of
                  None \<Rightarrow> Inr payload
                | Some e \<Rightarrow> if now div 1000 \<ge> e then Inl (Error ''jwt expired'') else Inr payload))"

text \<open>\<open>jwt.decode(token)\<close>: the payload without any check, \<open>null\<close> for a malformed token.\<close>

definition jwt_decode :: "token \<Rightarrow> claims option" where
  "jwt_decode tok = (case tok of Malformed s \<Rightarrow> None | Token payload key \<Rightarrow> Some payload)"

text \<open>
  The module constants \<open>JWT_SECRET\<close> and \<open>JWT_EXPIRES_IN\<close>, read from the process
  environment with \<open>||\<close>: an unset or empty variable gives the default.
\<close>

record environment =
  env_JWT_SECRET :: "string option"
  env_JWT_EXPIRES_IN :: "string option"

definition js_or :: "string option \<Rightarrow> string \<Rightarrow> string" where
  "js_or v d = (case v of None \<Rightarrow> d | Some s \<Rightarrow> if s = [] then d else s)"

definition JWT_SECRET :: "environment \<Rightarrow> string" where
  "JWT_SECRET env = js_or (env_JWT_SECRET env) ''your-secret-key''"

definition JWT_EXPIRES_IN :: "environment \<Rightarrow> string" where
  "JWT_EXPIRES_IN env = js_or (env_JWT_EXPIRES_IN env) ''7d''"

definition generateToken ::
  "(string \<Rightarrow> int option) \<Rightarrow> environment \<Rightarrow> int \<Rightarrow> claims \<Rightarrow> js_error + token" where
  "generateToken ms env now user =
     (let payload = \<lparr>c_und_id = None,
                     c_id = c_und_id user,
                     c_email = c_email user,
                     c_username = c_username user,
                     c_role = c_role user,
                     c_iat = None, c_exp = None, c_aud = None, c_iss = None\<rparr>
      in case jwt_sign ms now payload (JWT_SECRET env)
                \<lparr>expiresIn = JWT_EXPIRES_IN env,
                 issuer = ''mern-testing-app'',
                 audience = ''mern-testing-users''\<rparr> of
           Inl e \<Rightarrow> Inl (Error ''Token generation failed'')
         | Inr t \<Rightarrow> Inr t)"

definition verifyToken :: "environment \<Rightarrow> int \<Rightarrow> token \<Rightarrow> js_error + claims" where
  "verifyToken env now tok =
     (case jwt_verify now tok (JWT_SECRET env) of
        Inl e \<Rightarrow> Inl (Error ''Invalid token'')
      | Inr decoded \<Rightarrow> Inr decoded)"

definition decodeToken :: "token \<Rightarrow> js_error + claims option" where
  "decodeToken tok = Inr (jwt_decode tok)"

text \<open>The header is \<open>None\<close> when \<open>req.header\<close> gives \<open>undefined\<close> or \<open>null\<close>.\<close>

definition extractTokenFromHeader :: "string option \<Rightarrow> js_error + string" where
  "extractTokenFromHeader authHeader =
     (case authHeader of
        None \<Rightarrow> Inl (Error ''Authorization header missing'')
      | Some h \<Rightarrow>
          if h = [] then Inl (Error ''Authorization header missing'')
          else (let parts = js_split CHR '' '' h
                in if length parts \<noteq> 2 \<or> parts ! 0 \<noteq> ''Bearer''
                   then Inl (Error ''Invalid authorization header format'')
                   else Inr (parts ! 1)))"

text \<open>
  \<open>!decoded.exp\<close> holds for a missing expiry and for the number 0.
\<close>

definition isTokenExpired :: "int \<Rightarrow> token \<Rightarrow> bool" where
  "isTokenExpired now tok =
     (case jwt_decode tok of
        None \<Rightarrow> True
      | Some decoded \<Rightarrow>
          (case c_exp decoded of
             None \<Rightarrow> True
           | Some e \<Rightarrow>
               if e = 0 then True
               else (let currentTime = now div 1000 in e < currentTime)))"

text \<open>The expiry as a date in milliseconds, \<open>null\<close> when there is none.\<close>

definition getTokenExpiration :: "token \<Rightarrow> int option" where
  "getTokenExpiration tok =
     (case jwt_decode tok of
        None \<Rightarrow> None
      | Some decoded \<Rightarrow>
          (case c_exp decoded of
             None \<Rightarrow> None
           | Some e \<Rightarrow> if e = 0 then None else Some (e * 1000)))"

text \<open>
  \<open>refreshToken\<close>: the decoded payload without \<open>iat\<close>, \<open>exp\<close>, \<open>aud\<close> and \<open>iss\<close>
  is handed to \<open>generateToken\<close> as its \<open>user\<close>.
\<close>

definition refreshToken ::
  "(string \<Rightarrow> int option) \<Rightarrow> environment \<Rightarrow> int \<Rightarrow> token \<Rightarrow> js_error + token" where
  "refreshToken ms env now tok =
     (case jwt_decode tok of
        None \<Rightarrow> Inl (Error ''Token refresh failed'')
      | Some decoded \<Rightarrow>
          (let payload = decoded\<lparr>c_iat := None, c_exp := None, c_aud := None, c_iss := None\<rparr>
           in case generateToken ms env now payload of
                Inl e \<Rightarrow> Inl (Error ''Token refresh failed'')
              | Inr t \<Rightarrow> Inr t))"


section \<open>Access control: \<open>middleware/auth.js\<close>\<close>

text \<open>
  The user document that \<open>User.findById\<close> returns (\<open>user_id\<close> is its \<open>_id\<close>),
  and the parts of the Express request the middleware reads or writes.
\<close>

record user =
  user_id :: string
  user_email :: string
  user_username :: string
  user_role :: string
  isActive :: bool

record request =
  header_Authorization :: "string option"
  req_user :: "user option"
  req_token :: "string option"

text \<open>
  What a middleware does with a request: it calls \<open>next()\<close> with the request as it
  left it, or it answers \<open>res.status(code).json({error: message})\<close>.
\<close>

datatype outcome = Next request | Json nat string

text \<open>
  \<open>authenticate\<close>. The token string taken from the header is read by \<open>wire\<close>, the
  library's parsing of the compact serialisation into the symbolic token.
  \<open>findById\<close> is the user collection; it may reject (a database error), which the
  \<open>catch\<close> block handles like every other exception.
\<close>

definition authenticate ::
  "(string \<Rightarrow> token) \<Rightarrow> environment \<Rightarrow> int \<Rightarrow> (string option \<Rightarrow> js_error + user option)
     \<Rightarrow> request \<Rightarrow> outcome" where
  "authenticate wire env now findById req =
     (case extractTokenFromHeader (header_Authorization req) of
        Inl e \<Rightarrow> Json 401 ''Authentication failed''
      | Inr tok \<Rightarrow>
          (case verifyToken env now (wire tok) of
             Inl e \<Rightarrow> Json 401 ''Authentication failed''
           | Inr decoded \<Rightarrow>
               (case findById (c_id decoded) of
                  Inl e \<Rightarrow> Json 401 ''Authentication failed''
                | Inr None \<Rightarrow> Json 401 ''User not found''
                | Inr (Some u) \<Rightarrow>
                    if \<not> isActive u then Json 401 ''User account is deactivated''
                    else Next (req\<lparr>req_user := Some u, req_token := Some tok\<rparr>))))"

definition optionalAuth ::
  "(string \<Rightarrow> token) \<Rightarrow> environment \<Rightarrow> int \<Rightarrow> (string option \<Rightarrow> js_error + user option)
     \<Rightarrow> request \<Rightarrow> outcome" where
  "optionalAuth wire env now findById req =
     (if header_Authorization req = None \<or> header_Authorization req = Some [] then Next req
      else
        (case extractTokenFromHeader (header_Authorization req) of
           Inl e \<Rightarrow> Next req
         | Inr tok \<Rightarrow>
             (case verifyToken env now (wire tok) of
                Inl e \<Rightarrow> Next req
              | Inr decoded \<Rightarrow>
                  (case findById (c_id decoded) of
                     Inl e \<Rightarrow> Next req
                   | Inr None \<Rightarrow> Next req
                   | Inr (Some u) \<Rightarrow>
                       if isActive u then Next (req\<lparr>req_user := Some u, req_token := Some tok\<rparr>)
                       else Next req))))"

text \<open>
  The argument of \<open>authorize\<close> is a single role or an array of roles; when it is
  left out (\<open>None\<close>) the default parameter \<open>[]\<close> applies.
\<close>

datatype roles_arg = RoleString string | RoleArray "string list"

definition authorize :: "roles_arg option \<Rightarrow> request \<Rightarrow> outcome" where
  "authorize roles_opt req =
     (let roles = (case roles_opt of None \<Rightarrow> RoleArray [] | Some r \<Rightarrow> r)
      in case req_user req of
           None \<Rightarrow> Json 401 ''Authentication required''
         | Some u \<Rightarrow>
             (let requiredRoles = (case roles of RoleArray rs \<Rightarrow> rs | RoleString r \<Rightarrow> [r])
              in if user_role u \<notin> set requiredRoles then Json 403 ''Insufficient permissions''
                 else Next req))"

definition requireAdmin :: "request \<Rightarrow> outcome" where
  "requireAdmin = authorize (Some (RoleString ''admin''))"

definition requireModerator :: "request \<Rightarrow> outcome" where
  "requireModerator = authorize (Some (RoleArray [''admin'', ''moderator'']))"


section \<open>The content entity: \<open>models/Post.js\<close>\<close>

text \<open>
  The fields of a post document that the schema validates and that the save hooks
  and the counter methods touch (\<open>featuredImage\<close>, which has no validator and which
  no hook reads, is left out). \<open>post_id\<close> is \<open>_id\<close>; a field that is
  \<open>undefined\<close> is \<open>None\<close>; \<open>publishedAt\<close> is a date in milliseconds or
  \<open>null\<close>. \<open>modifiedPaths\<close> is Mongoose's record of the paths assigned since
  the last save, which \<open>isModified\<close> reads.
\<close>

record post =
  post_id :: string
  title :: string
  content :: string
  slug :: "string option"
  excerpt :: "string option"
  author :: "string option"
  category :: "string option"
  tags :: "string list"
  status :: string
  isPublished :: bool
  publishedAt :: "int option"
  viewCount :: int
  likeCount :: int
  commentCount :: int
  readingTime :: int
  seoTitle :: "string option"
  seoDescription :: "string option"
  modifiedPaths :: "string list"

definition isModified :: "string \<Rightarrow> post \<Rightarrow> bool" where
  "isModified path this \<longleftrightarrow> path \<in> set (modifiedPaths this)"

definition markModified :: "string \<Rightarrow> post \<Rightarrow> post" where
  "markModified path this = this\<lparr>modifiedPaths := path # modifiedPaths this\<rparr>"

text \<open>
  \<open>new Post({title, content, author, category})\<close>: the given fields are assigned
  (the title through its \<open>trim\<close> setter), the others take the schema defaults,
  which do not count as modified.
\<close>

definition new_Post :: "string \<Rightarrow> string \<Rightarrow> string \<Rightarrow> string \<Rightarrow> string \<Rightarrow> post" where
  "new_Post oid t c au cat =
     \<lparr>post_id = oid, title = trim t, content = c, slug = None, excerpt = None,
      author = Some au, category = Some cat, tags = [],
      status = ''draft'', isPublished = False, publishedAt = None,
      viewCount = 0, likeCount = 0, commentCount = 0, readingTime = 0,
      seoTitle = None, seoDescription = None,
      modifiedPaths = [''title'', ''content'', ''author'', ''category'']\<rparr>"

text \<open>
  The validators of the schema, each with the message the schema gives it. A
  \<open>required\<close> string fails when it is \<open>undefined\<close> or empty; the other validators
  do not run on an \<open>undefined\<close> value. For each path the first failing validator is
  reported.
\<close>

definition max_length :: "nat \<Rightarrow> string \<Rightarrow> string option \<Rightarrow> string list" where
  "max_length n msg v =
     (case v of None \<Rightarrow> [] | Some x \<Rightarrow> if length x > n then [msg] else [])"

definition validation_errors :: "post \<Rightarrow> string list" where
  "validation_errors this =
     (if title this = [] then [''Post title is required'']
      else if length (title this) < 5 then [''Title must be at least 5 characters long'']
      else if length (title this) > 200 then [''Title cannot exceed 200 characters'']
      else [])
     @ (if content this = [] then [''Post content is required'']
        else if length (content this) < 10 then [''Content must be at least 10 characters long'']
        else if length (content this) > 10000 then [''Content cannot exceed 10000 characters'']
        else [])
     @ max_length 300 ''Excerpt cannot exceed 300 characters'' (excerpt this)
     @ (if author this = None then [''Post author is required''] else [])
     @ (if category this = None then [''Post category is required''] else [])
     @ (if \<exists>t\<in>set (tags this). length t > 20 then [''Tag cannot exceed 20 characters''] else [])
     @ (if status this \<notin> set [''draft'', ''published'', ''archived'']
        then [''status is not a valid enum value''] else [])
     @ max_length 60 ''SEO title cannot exceed 60 characters'' (seoTitle this)
     @ max_length 160 ''SEO description cannot exceed 160 characters'' (seoDescription this)"

text \<open>
  \<open>this.slug = v\<close>: the schema's \<open>lowercase\<close> and \<open>trim\<close> setters are applied, and
  the path is marked as modified when the value changes.
\<close>

definition set_slug :: "string \<Rightarrow> post \<Rightarrow> post" where
  "set_slug v this =
     (let v' = trim (toLowerCase v)
      in if slug this = Some v' then this
         else markModified ''slug'' (this\<lparr>slug := Some v'\<rparr>))"

text \<open>A string that is \<open>undefined\<close> or empty is falsy.\<close>

definition falsy :: "string option \<Rightarrow> bool" where
  "falsy v \<longleftrightarrow> v = None \<or> v = Some []"

text \<open>
  The first \<open>pre('save')\<close> hook. \<open>slugify\<close> is the library call with the options of
  the source, \<open>now\<close> the reading of the clock in \<open>new Date()\<close>.
\<close>

definition pre_save_derive :: "(string \<Rightarrow> string) \<Rightarrow> int \<Rightarrow> post \<Rightarrow> post" where
  "pre_save_derive slugify now this =
     (let this1 = (if falsy (slug this) \<and> title this \<noteq> []
                   then set_slug (slugify (title this)) this else this);
          this2 = (if falsy (excerpt this1) \<and> content this1 \<noteq> []
                   then markModified ''excerpt''
                          (this1\<lparr>excerpt := Some (trim (take 150 (content this1)) @ ''...'')\<rparr>)
                   else this1);
          this3 = (if content this2 \<noteq> []
                   then (let wordCount = length (split_ws (content this2))
                         in markModified ''readingTime''
                              (this2\<lparr>readingTime := \<lceil>real wordCount / 200\<rceil>\<rparr>))
                   else this2)
      in if isModified ''status'' this3 \<and> status this3 = ''published'' \<and> publishedAt this3 = None
         then markModified ''isPublished''
                (markModified ''publishedAt'' (this3\<lparr>publishedAt := Some now, isPublished := True\<rparr>))
         else this3)"

text \<open>
  The second \<open>pre('save')\<close> hook. \<open>store\<close> is the posts collection; \<open>findOne\<close>
  gives some stored post with the same slug and another id. An \<open>undefined\<close> slug
  prints as \<open>undefined\<close> in the template literal.
\<close>

definition findOne_slug :: "post list \<Rightarrow> string option \<Rightarrow> string \<Rightarrow> post option" where
  "findOne_slug store s oid = find (\<lambda>q. slug q = s \<and> post_id q \<noteq> oid) store"

definition pre_save_unique :: "int \<Rightarrow> post list \<Rightarrow> post \<Rightarrow> post" where
  "pre_save_unique now store this =
     (if isModified ''slug'' this
      then (case findOne_slug store (slug this) (post_id this) of
              None \<Rightarrow> this
            | Some existingPost \<Rightarrow>
                set_slug ((case slug this of None \<Rightarrow> ''undefined'' | Some s \<Rightarrow> s)
                          @ ''-'' @ show_int now) this)
      else this)"

text \<open>
  \<open>this.save()\<close>. Mongoose first validates the document against the schema; a
  failure rejects the call with a validation error before any hook runs, and the
  document and the collection stay as they were. Otherwise both hooks run in the
  order they are registered, the document is written to the collection under its
  id, and its modified paths are cleared. The index on \<open>slug\<close> is not declared
  unique, so the write does not fail on a slug that is already stored. The result is
  the document after the call, the collection after the call, and the error when
  the call was rejected.
\<close>

definition save ::
  "(string \<Rightarrow> string) \<Rightarrow> int \<Rightarrow> post list \<Rightarrow> post \<Rightarrow> post \<times> post list \<times> js_error option" where
  "save slugify now store this =
     (if validation_errors this \<noteq> [] then (this, store, Some (Error ''Post validation failed''))
      else
        (let saved = (pre_save_unique now store (pre_save_derive slugify now this))
                       \<lparr>modifiedPaths := []\<rparr>
         in (saved, saved # filter (\<lambda>q. post_id q \<noteq> post_id saved) store, None)))"

text \<open>The counter methods: the change to \<open>this\<close>, then \<open>this.save()\<close>.\<close>

definition incrementViewCount ::
  "(string \<Rightarrow> string) \<Rightarrow> int \<Rightarrow> post list \<Rightarrow> post \<Rightarrow> post \<times> post list \<times> js_error option" where
  "incrementViewCount slugify now store this =
     save slugify now store (markModified ''viewCount'' (this\<lparr>viewCount := viewCount this + 1\<rparr>))"

definition incrementLikeCount ::
  "(string \<Rightarrow> string) \<Rightarrow> int \<Rightarrow> post list \<Rightarrow> post \<Rightarrow> post \<times> post list \<times> js_error option" where
  "incrementLikeCount slugify now store this =
     save slugify now store (markModified ''likeCount'' (this\<lparr>likeCount := likeCount this + 1\<rparr>))"

definition decrementLikeCount ::
  "(string \<Rightarrow> string) \<Rightarrow> int \<Rightarrow> post list \<Rightarrow> post \<Rightarrow> post \<times> post list \<times> js_error option" where
  "decrementLikeCount slugify now store this =
     save slugify now store
       (if likeCount this > 0
        then markModified ''likeCount'' (this\<lparr>likeCount := likeCount this - 1\<rparr>)
        else this)"

definition incrementCommentCount ::
  "(string \<Rightarrow> string) \<Rightarrow> int \<Rightarrow> post list \<Rightarrow> post \<Rightarrow> post \<times> post list \<times> js_error option" where
  "incrementCommentCount slugify now store this =
     save slugify now store
       (markModified ''commentCount'' (this\<lparr>commentCount := commentCount this + 1\<rparr>))"

definition decrementCommentCount ::
  "(string \<Rightarrow> string) \<Rightarrow> int \<Rightarrow> post list \<Rightarrow> post \<Rightarrow> post \<times> post list \<times> js_error option" where
  "decrementCommentCount slugify now store this =
     save slugify now store
       (if commentCount this > 0
        then markModified ''commentCount'' (this\<lparr>commentCount := commentCount this - 1\<rparr>)
        else this)"

text \<open>The five counter methods as one operation, to speak about any of them.\<close>

datatype counter_op =
  IncrementViewCount | IncrementLikeCount | DecrementLikeCount
| IncrementCommentCount | DecrementCommentCount

fun counter_method ::
  "counter_op \<Rightarrow> (string \<Rightarrow> string) \<Rightarrow> int \<Rightarrow> post list \<Rightarrow> post
     \<Rightarrow> post \<times> post list \<times> js_error option" where
  "counter_method IncrementViewCount = incrementViewCount"
| "counter_method IncrementLikeCount = incrementLikeCount"
| "counter_method DecrementLikeCount = decrementLikeCount"
| "counter_method IncrementCommentCount = incrementCommentCount"
| "counter_method DecrementCommentCount = decrementCommentCount"

text \<open>
  A caller's assignments between two saves, as the handlers and the tests make them
  (\<open>post.status = 'published'\<close>). An assignment that changes the value marks the path.
\<close>

datatype edit = SetStatus string | SetTitle string | SetContent string

fun apply_edit :: "post \<Rightarrow> edit \<Rightarrow> post" where
  "apply_edit this (SetStatus s) =
     (if status this = s then this else markModified ''status'' (this\<lparr>status := s\<rparr>))"
| "apply_edit this (SetTitle t) =
     (if title this = trim t then this else markModified ''title'' (this\<lparr>title := trim t\<rparr>))"
| "apply_edit this (SetContent c) =
     (if content this = c then this else markModified ''content'' (this\<lparr>content := c\<rparr>))"

text \<open>
  A sequence of saves of one entity: each step is the assignments made since the
  last save and the clock reading of the save. After a rejected save the caller
  goes on with the document as it is.
\<close>

fun saves ::
  "(string \<Rightarrow> string) \<Rightarrow> post list \<Rightarrow> post \<Rightarrow> (edit list \<times> int) list \<Rightarrow> post \<times> post list" where
  "saves slugify store this [] = (this, store)"
| "saves slugify store this ((edits, now) # rest) =
     (case save slugify now store (foldl apply_edit this edits) of
        (this', store', rejected) \<Rightarrow> saves slugify store' this' rest)"


section \<open>Sample values\<close>

text \<open>
  Concrete inputs on which the theorems below are evaluated: the time spans the
  server is configured with, read as the \<open>ms\<close> library reads them; the user of the
  unit tests; and a process environment that sets neither variable.
\<close>

definition ms_sample :: "string \<Rightarrow> int option" where
  "ms_sample s = (if s = ''7d'' then Some 604800000 else if s = ''1h'' then Some 3600000 else None)"

definition mockUser :: claims where
  "mockUser = \<lparr>c_und_id = Some ''507f1f77bcf86cd799439011'', c_id = None,
     c_email = Some ''test@example.com'', c_username = Some ''testuser'', c_role = Some ''user'',
     c_iat = None, c_exp = None, c_aud = None, c_iss = None\<rparr>"

definition no_env :: environment where
  "no_env = \<lparr>env_JWT_SECRET = None, env_JWT_EXPIRES_IN = None\<rparr>"

text \<open>
  A reading of token strings for the examples: one string is a token signed with the
  default secret, issued at second 1700000000 for seven days; every other string is
  malformed. The stored user of the middleware tests, and a request that carries
  the token.
\<close>

definition wire_sample :: "string \<Rightarrow> token" where
  "wire_sample s =
     (if s = ''valid.jwt.token''
      then Token \<lparr>c_und_id = None, c_id = Some ''507f1f77bcf86cd799439011'',
                  c_email = Some ''test@example.com'', c_username = Some ''testuser'',
                  c_role = Some ''user'', c_iat = Some 1700000000, c_exp = Some 1700604800,
                  c_aud = Some ''mern-testing-users'', c_iss = Some ''mern-testing-app''\<rparr>
             ''your-secret-key''
      else Malformed s)"

definition testUser :: user where
  "testUser = \<lparr>user_id = ''507f1f77bcf86cd799439011'', user_email = ''test@example.com'',
     user_username = ''testuser'', user_role = ''admin'', isActive = True\<rparr>"

definition bearer_request :: request where
  "bearer_request =
     \<lparr>header_Authorization = Some ''Bearer valid.jwt.token'', req_user = None, req_token = None\<rparr>"

text \<open>
  \<open>slugify\<close> with the options of the source, on titles made of ASCII letters, digits
  and single spaces, where it lowers the case and turns each space into a hyphen.
  The post of the unit tests, and a post saved earlier under the same title.
\<close>

definition slugify_sample :: "string \<Rightarrow> string" where
  "slugify_sample t = map (\<lambda>c. if c = CHR '' '' then CHR ''-'' else c) (toLowerCase t)"

definition testPost :: post where
  "testPost = new_Post ''p1'' ''Test Post'' ''This is a test post content.'' ''u1'' ''c1''"

definition storedPost :: post where
  "storedPost =
     fst (save slugify_sample 1699999999000 []
            (new_Post ''p0'' ''Test Post'' ''An earlier post.'' ''u1'' ''c1''))"

text \<open>Words joined by single spaces.\<close>

fun space_separated :: "string list \<Rightarrow> string" where
  "space_separated [] = []"
| "space_separated [w] = w"
| "space_separated (w # v # ws) = w @ CHR '' '' # space_separated (v # ws)"


section \<open>Splitting strings\<close>

lemma js_split_not_Nil: "js_split sep s \<noteq> []"
  by (induction s) (auto split: list.splits)

lemma js_split_sep: "js_split sep (sep # cs) = [] # js_split sep cs"
  by simp

lemma js_split_other:
  "c \<noteq> sep \<Longrightarrow> js_split sep (c # cs) = (c # hd (js_split sep cs)) # tl (js_split sep cs)"
  using js_split_not_Nil [of sep cs] by (cases "js_split sep cs") simp_all

lemma js_split_one: "js_split sep s = [a] \<longleftrightarrow> s = a \<and> sep \<notin> set a"
proof (induction s arbitrary: a)
  case Nil
  show ?case by auto
next
  case (Cons c cs)
  show ?case
  proof (cases "c = sep")
    case True
    then show ?thesis by (auto simp: js_split_not_Nil)
  next
    case False
    show ?thesis
    proof (cases a)
      case Nil
      then show ?thesis using False by (simp add: js_split_other del: js_split.simps)
    next
      case (Cons x w)
      have "js_split sep (c # cs) = [x # w] \<longleftrightarrow> c = x \<and> js_split sep cs = [w]"
        using False js_split_not_Nil [of sep cs]
        by (cases "js_split sep cs") (auto simp: js_split_other simp del: js_split.simps)
      then show ?thesis using Cons Cons.IH [of w] False by auto
    qed
  qed
qed

lemma js_split_two:
  "js_split sep s = [a, b] \<longleftrightarrow> s = a @ sep # b \<and> sep \<notin> set a \<and> sep \<notin> set b"
proof (induction s arbitrary: a)
  case Nil
  show ?case by simp
next
  case (Cons c cs)
  show ?case
  proof (cases "c = sep")
    case True
    show ?thesis
    proof (cases a)
      case Nil
      then show ?thesis using True by (simp add: js_split_one)
    next
      case (Cons x w)
      then show ?thesis using True by auto
    qed
  next
    case False
    show ?thesis
    proof (cases a)
      case Nil
      then show ?thesis using False by (simp add: js_split_other del: js_split.simps)
    next
      case (Cons x w)
      have "js_split sep (c # cs) = [x # w, b] \<longleftrightarrow> c = x \<and> js_split sep cs = [w, b]"
        using False js_split_not_Nil [of sep cs]
        by (cases "js_split sep cs") (auto simp: js_split_other simp del: js_split.simps)
      then show ?thesis using Cons Cons.IH [of w] False by auto
    qed
  qed
qed

lemma length_two: "length xs = 2 \<longleftrightarrow> (\<exists>a b. xs = [a, b])"
  by (cases xs; cases "tl xs") auto

lemma extract_Some_Inr:
  "extractTokenFromHeader (Some s) = Inr u \<longleftrightarrow> s = ''Bearer '' @ u \<and> CHR '' '' \<notin> set u"
proof (cases "s = []")
  case True
  then show ?thesis by (simp add: extractTokenFromHeader_def)
next
  case False
  have "extractTokenFromHeader (Some s) = Inr u \<longleftrightarrow> js_split CHR '' '' s = [''Bearer'', u]"
    using False by (auto simp: extractTokenFromHeader_def Let_def length_two)
  also have "\<dots> \<longleftrightarrow> s = ''Bearer'' @ CHR '' '' # u \<and> CHR '' '' \<notin> set ''Bearer'' \<and> CHR '' '' \<notin> set u"
    by (rule js_split_two)
  also have "\<dots> \<longleftrightarrow> s = ''Bearer '' @ u \<and> CHR '' '' \<notin> set u"
    by simp
  finally show ?thesis .
qed

lemma extract_cases:
  "extractTokenFromHeader (Some s) = Inl (Error ''Authorization header missing'') \<and> s = []
     \<or> extractTokenFromHeader (Some s) = Inl (Error ''Invalid authorization header format'') \<and> s \<noteq> []
     \<or> (\<exists>u. extractTokenFromHeader (Some s) = Inr u) \<and> s \<noteq> []"
  by (simp add: extractTokenFromHeader_def Let_def)

lemma extract_None: "extractTokenFromHeader None = Inl (Error ''Authorization header missing'')"
  by (simp add: extractTokenFromHeader_def)


section \<open>Properties of the token functions\<close>

text \<open>
  Claim C5, as stated, fails: the claim counts a missing token segment as
  malformed, but the header \<open>Bearer\<close> followed by one space splits into two
  segments, the second one empty, and the empty token is returned.
\<close>

theorem extractTokenFromHeader_counterexample:
  "extractTokenFromHeader (Some ''Bearer '') = Inr []"
  by (simp add: extract_Some_Inr)

text \<open>
  Claim C5, amended. \<open>extractTokenFromHeader h\<close> returns a token \<open>t\<close> exactly when
  \<open>h\<close> is \<open>Bearer\<close>, one space, and a segment \<open>t\<close> without a space, where \<open>t\<close>
  may be empty. It raises the missing-header error exactly for an absent or empty
  header, and the malformed-header error exactly for every other header that is
  present and not of that shape (wrong scheme, no second segment, or further
  segments).
\<close>

theorem extractTokenFromHeader_spec:
  "(extractTokenFromHeader h = Inr t \<longleftrightarrow>
      h = Some (''Bearer '' @ t) \<and> CHR '' '' \<notin> set t)
   \<and> (extractTokenFromHeader h = Inl (Error ''Authorization header missing'') \<longleftrightarrow>
      h = None \<or> h = Some [])
   \<and> (extractTokenFromHeader h = Inl (Error ''Invalid authorization header format'') \<longleftrightarrow>
      (\<exists>s. h = Some s \<and> s \<noteq> [] \<and> \<not> (\<exists>u. s = ''Bearer '' @ u \<and> CHR '' '' \<notin> set u)))"
proof (cases h)
  case None
  then show ?thesis by (simp add: extract_None)
next
  case (Some s)
  have p1: "extractTokenFromHeader (Some s) = Inr t \<longleftrightarrow> s = ''Bearer '' @ t \<and> CHR '' '' \<notin> set t"
    by (rule extract_Some_Inr)
  have p2: "extractTokenFromHeader (Some s) = Inl (Error ''Authorization header missing'') \<longleftrightarrow> s = []"
    using extract_cases [of s] by auto
  have p3: "extractTokenFromHeader (Some s) = Inl (Error ''Invalid authorization header format'') \<longleftrightarrow>
      s \<noteq> [] \<and> \<not> (\<exists>u. s = ''Bearer '' @ u \<and> CHR '' '' \<notin> set u)"
  proof
    assume a: "extractTokenFromHeader (Some s) = Inl (Error ''Invalid authorization header format'')"
    have "s \<noteq> []" using a extract_cases [of s] by auto
    moreover have "\<not> (\<exists>u. s = ''Bearer '' @ u \<and> CHR '' '' \<notin> set u)"
    proof
      assume "\<exists>u. s = ''Bearer '' @ u \<and> CHR '' '' \<notin> set u"
      then obtain u where "extractTokenFromHeader (Some s) = Inr u"
        using extract_Some_Inr [of s] by blast
      with a show False by simp
    qed
    ultimately show "s \<noteq> [] \<and> \<not> (\<exists>u. s = ''Bearer '' @ u \<and> CHR '' '' \<notin> set u)" ..
  next
    assume b: "s \<noteq> [] \<and> \<not> (\<exists>u. s = ''Bearer '' @ u \<and> CHR '' '' \<notin> set u)"
    then have "\<not> (\<exists>u. extractTokenFromHeader (Some s) = Inr u)"
      using extract_Some_Inr [of s] by blast
    then show "extractTokenFromHeader (Some s) = Inl (Error ''Invalid authorization header format'')"
      using extract_cases [of s] b by blast
  qed
  show ?thesis unfolding Some using p1 p2 p3 by simp
qed

theorem extractTokenFromHeader_spec_witness:
  "extractTokenFromHeader (Some ''Bearer abc'') = Inr ''abc''
   \<and> extractTokenFromHeader (Some ''Bearer '') = Inr []
   \<and> extractTokenFromHeader (Some ''Bearer'') = Inl (Error ''Invalid authorization header format'')
   \<and> extractTokenFromHeader (Some ''Basic xyz'') = Inl (Error ''Invalid authorization header format'')
   \<and> extractTokenFromHeader (Some ''Bearer token extra'')
        = Inl (Error ''Invalid authorization header format'')
   \<and> extractTokenFromHeader None = Inl (Error ''Authorization header missing'')"
  using extractTokenFromHeader_spec [of "Some ''Bearer abc''" "''abc''"]
    extractTokenFromHeader_spec [of "Some ''Bearer ''" "[]"]
    extractTokenFromHeader_spec [of "Some ''Bearer''" "[]"]
    extractTokenFromHeader_spec [of "Some ''Basic xyz''" "[]"]
    extractTokenFromHeader_spec [of "Some ''Bearer token extra''" "[]"]
    extractTokenFromHeader_spec [of None "[]"]
  by (simp add: append_eq_Cons_conv)

lemma JWT_SECRET_not_empty: "JWT_SECRET env \<noteq> []"
  by (simp add: JWT_SECRET_def js_or_def split: option.splits)

lemma generateToken_ok:
  assumes "ms (JWT_EXPIRES_IN env) = Some lifetime"
  shows "generateToken ms env now u =
     Inr (Token \<lparr>c_und_id = None, c_id = c_und_id u, c_email = c_email u,
                 c_username = c_username u, c_role = c_role u,
                 c_iat = Some (now div 1000),
                 c_exp = Some (now div 1000 + lifetime div 1000),
                 c_aud = Some ''mern-testing-users'',
                 c_iss = Some ''mern-testing-app''\<rparr> (JWT_SECRET env))"
  using assms by (simp add: generateToken_def jwt_sign_def JWT_SECRET_not_empty Let_def)

text \<open>
  Claim C4. For all identity claims \<open>_id\<close>, \<open>email\<close>, \<open>username\<close>, \<open>role\<close> of a
  user, when the configured lifetime is one the library can read, a token issued
  from them at time \<open>now\<close> and verified at a time \<open>now'\<close> before its expiry is
  accepted, and the payload returned has \<open>id\<close>, \<open>email\<close>, \<open>username\<close> and \<open>role\<close>
  equal to the issued ones.
\<close>

theorem verifyToken_generateToken_roundtrip:
  assumes "ms (JWT_EXPIRES_IN env) = Some lifetime"
    and "now' div 1000 < now div 1000 + lifetime div 1000"
  shows "\<exists>tok decoded. generateToken ms env now u = Inr tok
           \<and> verifyToken env now' tok = Inr decoded
           \<and> c_id decoded = c_und_id u \<and> c_email decoded = c_email u
           \<and> c_username decoded = c_username u \<and> c_role decoded = c_role u"
  using assms by (simp add: generateToken_ok verifyToken_def jwt_verify_def)

theorem verifyToken_generateToken_roundtrip_witness:
  "\<exists>tok decoded. generateToken ms_sample no_env 1700000000000 mockUser = Inr tok
           \<and> verifyToken no_env 1700000005000 tok = Inr decoded
           \<and> c_id decoded = Some ''507f1f77bcf86cd799439011''
           \<and> c_email decoded = Some ''test@example.com''
           \<and> c_username decoded = Some ''testuser'' \<and> c_role decoded = Some ''user''"
  using verifyToken_generateToken_roundtrip
    [of ms_sample no_env 604800000 1700000005000 1700000000000 mockUser]
  by (simp add: ms_sample_def no_env_def JWT_EXPIRES_IN_def js_or_def mockUser_def)

text \<open>
  Claim C6. \<open>isTokenExpired\<close> is true whenever the token does not decode and
  whenever the decoded payload has no expiry claim; otherwise, the clock being past
  the first second of the epoch, it is true if and only if the expiry claim is
  before the current time in seconds.
\<close>

theorem isTokenExpired_fail_closed:
  "(jwt_decode tok = None \<longrightarrow> isTokenExpired now tok)
   \<and> (\<forall>decoded. jwt_decode tok = Some decoded \<and> c_exp decoded = None \<longrightarrow> isTokenExpired now tok)
   \<and> (\<forall>decoded e. jwt_decode tok = Some decoded \<and> c_exp decoded = Some e \<and> 0 < now div 1000 \<longrightarrow>
         (isTokenExpired now tok \<longleftrightarrow> e < now div 1000))"
  by (auto simp: isTokenExpired_def Let_def)

theorem isTokenExpired_fail_closed_witness:
  "isTokenExpired 1700000000000 (Malformed ''invalid.token'')
   \<and> isTokenExpired 1700000000000 (Token mockUser ''your-secret-key'')
   \<and> isTokenExpired 1700000000000 (Token (mockUser\<lparr>c_exp := Some 1699996400\<rparr>) ''your-secret-key'')
   \<and> \<not> isTokenExpired 1700000000000 (Token (mockUser\<lparr>c_exp := Some 1700003600\<rparr>) ''your-secret-key'')"
  using isTokenExpired_fail_closed [of "Malformed ''invalid.token''" 1700000000000]
    isTokenExpired_fail_closed [of "Token mockUser ''your-secret-key''" 1700000000000]
    isTokenExpired_fail_closed [of "Token (mockUser\<lparr>c_exp := Some 1699996400\<rparr>) ''your-secret-key''" 1700000000000]
    isTokenExpired_fail_closed [of "Token (mockUser\<lparr>c_exp := Some 1700003600\<rparr>) ''your-secret-key''" 1700000000000]
  by (simp add: jwt_decode_def mockUser_def)

text \<open>
  Re-issuing in general: \<open>generateToken\<close> takes the subject from the field \<open>_id\<close>
  of the object it is given, and \<open>refreshToken\<close> gives it the decoded payload, in
  which the subject is the field \<open>id\<close>.
\<close>

lemma refreshToken_ok:
  assumes "jwt_decode tok = Some decoded"
    and "ms (JWT_EXPIRES_IN env) = Some lifetime"
  shows "refreshToken ms env now tok =
     Inr (Token \<lparr>c_und_id = None, c_id = c_und_id decoded, c_email = c_email decoded,
                 c_username = c_username decoded, c_role = c_role decoded,
                 c_iat = Some (now div 1000),
                 c_exp = Some (now div 1000 + lifetime div 1000),
                 c_aud = Some ''mern-testing-users'',
                 c_iss = Some ''mern-testing-app''\<rparr> (JWT_SECRET env))"
  using assms by (simp add: refreshToken_def generateToken_ok jwt_decode_def)

lemma refreshToken_of_issued_token:
  assumes "ms (JWT_EXPIRES_IN env) = Some lifetime"
  shows "\<exists>tok tok'. generateToken ms env now u = Inr tok
           \<and> refreshToken ms env now' tok = Inr tok'
           \<and> c_id (tok_payload tok) = c_und_id u
           \<and> c_id (tok_payload tok') = None"
  using assms by (simp add: generateToken_ok refreshToken_ok jwt_decode_def)

text \<open>
  Claim C2 asks that a refreshed token has the identity claims of the original
  (subject id, email, username, role) and a strictly greater expiry. The code does
  not do that at the input of its own unit tests: the token issued for the test
  user, refreshed within the second in which it was issued, comes back without its
  \<open>id\<close> and with the same expiry.
\<close>

theorem refreshToken_loses_subject_id:
  "generateToken ms_sample no_env 1700000000000 mockUser
     = Inr (Token \<lparr>c_und_id = None, c_id = Some ''507f1f77bcf86cd799439011'',
                   c_email = Some ''test@example.com'', c_username = Some ''testuser'',
                   c_role = Some ''user'', c_iat = Some 1700000000, c_exp = Some 1700604800,
                   c_aud = Some ''mern-testing-users'', c_iss = Some ''mern-testing-app''\<rparr>
              ''your-secret-key'')
   \<and> refreshToken ms_sample no_env 1700000000999
       (Token \<lparr>c_und_id = None, c_id = Some ''507f1f77bcf86cd799439011'',
                   c_email = Some ''test@example.com'', c_username = Some ''testuser'',
                   c_role = Some ''user'', c_iat = Some 1700000000, c_exp = Some 1700604800,
                   c_aud = Some ''mern-testing-users'', c_iss = Some ''mern-testing-app''\<rparr>
              ''your-secret-key'')
     = Inr (Token \<lparr>c_und_id = None, c_id = None,
                   c_email = Some ''test@example.com'', c_username = Some ''testuser'',
                   c_role = Some ''user'', c_iat = Some 1700000000, c_exp = Some 1700604800,
                   c_aud = Some ''mern-testing-users'', c_iss = Some ''mern-testing-app''\<rparr>
              ''your-secret-key'')"
  by (simp add: Let_def refreshToken_def generateToken_def jwt_sign_def jwt_decode_def
      JWT_SECRET_def JWT_EXPIRES_IN_def js_or_def ms_sample_def no_env_def mockUser_def)


section \<open>Properties of the access control\<close>

lemma extract_bearer_sample:
  "extractTokenFromHeader (Some ''Bearer valid.jwt.token'') = Inr ''valid.jwt.token''"
  by (simp add: extract_Some_Inr)

lemma verify_wire_sample:
  "verifyToken no_env 1700000005000 (wire_sample ''valid.jwt.token'') =
     Inr \<lparr>c_und_id = None, c_id = Some ''507f1f77bcf86cd799439011'',
                  c_email = Some ''test@example.com'', c_username = Some ''testuser'',
                  c_role = Some ''user'', c_iat = Some 1700000000, c_exp = Some 1700604800,
                  c_aud = Some ''mern-testing-users'', c_iss = Some ''mern-testing-app''\<rparr>"
  by (simp add: verifyToken_def jwt_verify_def wire_sample_def JWT_SECRET_def js_or_def no_env_def)

text \<open>
  Claim C1 asks for the one generic body \<open>Authentication failed\<close> on every
  authentication failure. The code answers a valid token whose subject has no stored
  user with \<open>User not found\<close>, and a valid token of a deactivated user with
  \<open>User account is deactivated\<close>: both with status 401 and without calling the
  downstream handler, but with bodies that tell the failures apart.
\<close>

theorem authenticate_distinguishes_failures:
  "authenticate wire_sample no_env 1700000005000 (\<lambda>i. Inr None) bearer_request
     = Json 401 ''User not found''
   \<and> authenticate wire_sample no_env 1700000005000
       (\<lambda>i. Inr (Some (testUser\<lparr>isActive := False\<rparr>))) bearer_request
     = Json 401 ''User account is deactivated''"
  by (simp add: authenticate_def bearer_request_def extract_bearer_sample verify_wire_sample
      testUser_def)

text \<open>
  The failures that raise an exception (header extraction and token verification) do
  get the generic answer.
\<close>

lemma authenticate_exception_generic:
  "extractTokenFromHeader (header_Authorization req) = Inl e
   \<or> (\<exists>tok e'. extractTokenFromHeader (header_Authorization req) = Inr tok
        \<and> verifyToken env now (wire tok) = Inl e')
   \<Longrightarrow> authenticate wire env now findById req = Json 401 ''Authentication failed''"
  by (auto simp: authenticate_def)

text \<open>
  Claim C10. For every authenticated principal, whatever its role, the middleware
  made by \<open>authorize()\<close> with its default argument answers 403 with
  \<open>Insufficient permissions\<close> and never calls the downstream handler.
\<close>

theorem authorize_default_denies_all:
  "req_user req = Some u \<Longrightarrow>
     authorize None req = Json 403 ''Insufficient permissions''
     \<and> (\<forall>r. authorize None req \<noteq> Next r)"
  by (simp add: authorize_def)

theorem authorize_default_denies_all_witness:
  "authorize None (bearer_request\<lparr>req_user := Some testUser\<rparr>) = Json 403 ''Insufficient permissions''
   \<and> (\<forall>r. authorize None (bearer_request\<lparr>req_user := Some testUser\<rparr>) \<noteq> Next r)"
  using authorize_default_denies_all [of "bearer_request\<lparr>req_user := Some testUser\<rparr>" testUser]
  by simp

section \<open>Properties of the save hooks and the counters\<close>

lemma markModified_fields [simp]:
  "post_id (markModified path this) = post_id this"
  "title (markModified path this) = title this"
  "content (markModified path this) = content this"
  "slug (markModified path this) = slug this"
  "excerpt (markModified path this) = excerpt this"
  "status (markModified path this) = status this"
  "isPublished (markModified path this) = isPublished this"
  "publishedAt (markModified path this) = publishedAt this"
  "viewCount (markModified path this) = viewCount this"
  "likeCount (markModified path this) = likeCount this"
  "commentCount (markModified path this) = commentCount this"
  "readingTime (markModified path this) = readingTime this"
  "modifiedPaths (markModified path this) = path # modifiedPaths this"
  "author (markModified path this) = author this"
  "category (markModified path this) = category this"
  "tags (markModified path this) = tags this"
  "seoTitle (markModified path this) = seoTitle this"
  "seoDescription (markModified path this) = seoDescription this"
  by (simp_all add: markModified_def)

lemma set_slug_fields [simp]:
  "post_id (set_slug v this) = post_id this"
  "title (set_slug v this) = title this"
  "content (set_slug v this) = content this"
  "excerpt (set_slug v this) = excerpt this"
  "status (set_slug v this) = status this"
  "isPublished (set_slug v this) = isPublished this"
  "publishedAt (set_slug v this) = publishedAt this"
  "viewCount (set_slug v this) = viewCount this"
  "likeCount (set_slug v this) = likeCount this"
  "commentCount (set_slug v this) = commentCount this"
  "readingTime (set_slug v this) = readingTime this"
  "author (set_slug v this) = author this"
  "category (set_slug v this) = category this"
  "tags (set_slug v this) = tags this"
  "seoTitle (set_slug v this) = seoTitle this"
  "seoDescription (set_slug v this) = seoDescription this"
  by (simp_all add: set_slug_def Let_def)

lemma set_slug_slug [simp]: "slug (set_slug v this) = Some (trim (toLowerCase v))"
  by (simp add: set_slug_def Let_def)

lemma set_slug_isModified:
  "isModified path (set_slug v this) \<longleftrightarrow>
     isModified path this \<or> (path = ''slug'' \<and> slug this \<noteq> Some (trim (toLowerCase v)))"
  by (auto simp: set_slug_def Let_def isModified_def)

lemma pre_save_unique_fields [simp]:
  "post_id (pre_save_unique now store this) = post_id this"
  "title (pre_save_unique now store this) = title this"
  "content (pre_save_unique now store this) = content this"
  "excerpt (pre_save_unique now store this) = excerpt this"
  "status (pre_save_unique now store this) = status this"
  "isPublished (pre_save_unique now store this) = isPublished this"
  "publishedAt (pre_save_unique now store this) = publishedAt this"
  "viewCount (pre_save_unique now store this) = viewCount this"
  "likeCount (pre_save_unique now store this) = likeCount this"
  "commentCount (pre_save_unique now store this) = commentCount this"
  "readingTime (pre_save_unique now store this) = readingTime this"
  "author (pre_save_unique now store this) = author this"
  "category (pre_save_unique now store this) = category this"
  "tags (pre_save_unique now store this) = tags this"
  "seoTitle (pre_save_unique now store this) = seoTitle this"
  "seoDescription (pre_save_unique now store this) = seoDescription this"
  by (simp_all add: pre_save_unique_def split: option.splits)

lemma pre_save_derive_fields [simp]:
  "post_id (pre_save_derive slugify now this) = post_id this"
  "title (pre_save_derive slugify now this) = title this"
  "content (pre_save_derive slugify now this) = content this"
  "status (pre_save_derive slugify now this) = status this"
  "viewCount (pre_save_derive slugify now this) = viewCount this"
  "likeCount (pre_save_derive slugify now this) = likeCount this"
  "commentCount (pre_save_derive slugify now this) = commentCount this"
  "author (pre_save_derive slugify now this) = author this"
  "category (pre_save_derive slugify now this) = category this"
  "tags (pre_save_derive slugify now this) = tags this"
  "seoTitle (pre_save_derive slugify now this) = seoTitle this"
  "seoDescription (pre_save_derive slugify now this) = seoDescription this"
  by (simp_all add: pre_save_derive_def Let_def)

lemma pre_save_derive_readingTime:
  "readingTime (pre_save_derive slugify now this) =
     (if content this \<noteq> [] then \<lceil>real (length (split_ws (content this))) / 200\<rceil>
      else readingTime this)"
  by (simp add: pre_save_derive_def Let_def)

lemma pre_save_derive_isModified_status:
  "isModified ''status'' (pre_save_derive slugify now this) = isModified ''status'' this"
  by (simp add: pre_save_derive_def Let_def isModified_def set_slug_def markModified_def)

lemma pre_save_derive_publishedAt:
  "publishedAt (pre_save_derive slugify now this) =
     (if isModified ''status'' this \<and> status this = ''published'' \<and> publishedAt this = None
      then Some now else publishedAt this)"
  by (simp add: pre_save_derive_def Let_def isModified_def set_slug_def markModified_def)

lemma pre_save_derive_isPublished:
  "isPublished (pre_save_derive slugify now this) \<longleftrightarrow>
     isPublished this
     \<or> (isModified ''status'' this \<and> status this = ''published'' \<and> publishedAt this = None)"
  by (auto simp: pre_save_derive_def Let_def isModified_def set_slug_def markModified_def)

lemma save_valid:
  "validation_errors this = [] \<Longrightarrow>
     save slugify now store this =
       ((pre_save_unique now store (pre_save_derive slugify now this))\<lparr>modifiedPaths := []\<rparr>,
        (pre_save_unique now store (pre_save_derive slugify now this))\<lparr>modifiedPaths := []\<rparr>
          # filter (\<lambda>q. post_id q \<noteq> post_id this) store,
        None)"
  by (simp add: save_def Let_def)

lemma save_invalid:
  "validation_errors this \<noteq> [] \<Longrightarrow>
     save slugify now store this = (this, store, Some (Error ''Post validation failed''))"
  by (simp add: save_def)

lemma save_rejected_iff:
  "snd (snd (save slugify now store this)) = None \<longleftrightarrow> validation_errors this = []"
  by (simp add: save_def Let_def)

lemma valid_iff:
  "validation_errors this = [] \<longleftrightarrow>
     5 \<le> length (title this) \<and> length (title this) \<le> 200
     \<and> 10 \<le> length (content this) \<and> length (content this) \<le> 10000
     \<and> (\<forall>e. excerpt this = Some e \<longrightarrow> length e \<le> 300)
     \<and> author this \<noteq> None \<and> category this \<noteq> None
     \<and> (\<forall>t\<in>set (tags this). length t \<le> 20)
     \<and> status this \<in> set [''draft'', ''published'', ''archived'']
     \<and> (\<forall>e. seoTitle this = Some e \<longrightarrow> length e \<le> 60)
     \<and> (\<forall>e. seoDescription this = Some e \<longrightarrow> length e \<le> 160)"
proof -
  have t: "(if title this = [] then [''Post title is required'']
      else if length (title this) < 5 then [''Title must be at least 5 characters long'']
      else if length (title this) > 200 then [''Title cannot exceed 200 characters'']
      else []) = [] \<longleftrightarrow> 5 \<le> length (title this) \<and> length (title this) \<le> 200"
    by auto
  have c: "(if content this = [] then [''Post content is required'']
        else if length (content this) < 10 then [''Content must be at least 10 characters long'']
        else if length (content this) > 10000 then [''Content cannot exceed 10000 characters'']
        else []) = [] \<longleftrightarrow> 10 \<le> length (content this) \<and> length (content this) \<le> 10000"
    by auto
  have m: "max_length n msg v = [] \<longleftrightarrow> (\<forall>e. v = Some e \<longrightarrow> length e \<le> n)" for n msg v
    by (cases v) (auto simp: max_length_def)
  have g: "(if \<exists>t\<in>set (tags this). length t > 20 then [''Tag cannot exceed 20 characters''] else [])
      = [] \<longleftrightarrow> (\<forall>t\<in>set (tags this). length t \<le> 20)"
    by (auto simp: not_le)
  have a: "(if author this = None then [''Post author is required''] else []) = []
      \<longleftrightarrow> author this \<noteq> None"
    "(if category this = None then [''Post category is required''] else []) = []
      \<longleftrightarrow> category this \<noteq> None"
    "(if status this \<notin> set [''draft'', ''published'', ''archived'']
        then [''status is not a valid enum value''] else []) = []
      \<longleftrightarrow> status this \<in> set [''draft'', ''published'', ''archived'']"
    by simp_all
  show ?thesis
    unfolding validation_errors_def append_is_Nil_conv t c m g a by (simp only: conj_assoc)
qed

lemma valid_content_not_empty: "validation_errors this = [] \<Longrightarrow> content this \<noteq> []"
  by (auto simp: valid_iff)

lemma valid_title_not_empty: "validation_errors this = [] \<Longrightarrow> title this \<noteq> []"
  by (auto simp: valid_iff)

lemma save_fields [simp]:
  "post_id (fst (save slugify now store this)) = post_id this"
  "title (fst (save slugify now store this)) = title this"
  "content (fst (save slugify now store this)) = content this"
  "status (fst (save slugify now store this)) = status this"
  "viewCount (fst (save slugify now store this)) = viewCount this"
  "likeCount (fst (save slugify now store this)) = likeCount this"
  "commentCount (fst (save slugify now store this)) = commentCount this"
  "author (fst (save slugify now store this)) = author this"
  "category (fst (save slugify now store this)) = category this"
  "tags (fst (save slugify now store this)) = tags this"
  "seoTitle (fst (save slugify now store this)) = seoTitle this"
  "seoDescription (fst (save slugify now store this)) = seoDescription this"
  by (simp_all add: save_def Let_def)

lemma save_readingTime:
  "readingTime (fst (save slugify now store this)) =
     (if validation_errors this = [] then \<lceil>real (length (split_ws (content this))) / 200\<rceil>
      else readingTime this)"
  by (simp add: save_def Let_def pre_save_derive_readingTime valid_content_not_empty)

lemma save_publishedAt:
  "publishedAt (fst (save slugify now store this)) =
     (if validation_errors this = [] \<and> isModified ''status'' this \<and> status this = ''published''
         \<and> publishedAt this = None
      then Some now else publishedAt this)"
  by (simp add: save_def Let_def pre_save_derive_publishedAt)

lemma save_isPublished:
  "isPublished (fst (save slugify now store this)) \<longleftrightarrow>
     isPublished this
     \<or> (validation_errors this = [] \<and> isModified ''status'' this \<and> status this = ''published''
         \<and> publishedAt this = None)"
  by (simp add: save_def Let_def pre_save_derive_isPublished)

lemma apply_edit_publish_fields [simp]:
  "publishedAt (apply_edit this e) = publishedAt this"
  "isPublished (apply_edit this e) = isPublished this"
  by (cases e; simp)+

lemma foldl_apply_edit_publish_fields [simp]:
  "publishedAt (foldl apply_edit this es) = publishedAt this"
  "isPublished (foldl apply_edit this es) = isPublished this"
  by (induction es arbitrary: this) simp_all

lemma apply_edit_isModified_mono:
  "isModified path this \<Longrightarrow> isModified path (apply_edit this e)"
  by (cases e) (simp_all add: isModified_def)

lemma foldl_apply_edit_isModified_mono:
  "isModified path this \<Longrightarrow> isModified path (foldl apply_edit this es)"
  by (induction es arbitrary: this) (simp_all add: apply_edit_isModified_mono)

lemma apply_edit_status:
  "status (apply_edit this e) = status this \<or> isModified ''status'' (apply_edit this e)"
  by (cases e) (simp_all add: isModified_def)

lemma foldl_apply_edit_status:
  "status (foldl apply_edit this es) = status this
   \<or> isModified ''status'' (foldl apply_edit this es)"
proof (induction es arbitrary: this)
  case Nil
  show ?case by simp
next
  case (Cons e es)
  from Cons.IH [of "apply_edit this e"] apply_edit_status [of this e]
    foldl_apply_edit_isModified_mono [of "''status''" "apply_edit this e" es]
  show ?case by auto
qed

lemma saves_step:
  "saves slugify store this ((edits, now) # rest) =
     saves slugify (fst (snd (save slugify now store (foldl apply_edit this edits))))
       (fst (save slugify now store (foldl apply_edit this edits))) rest"
  by (simp add: case_prod_unfold)

lemma saves_publishedAt_kept:
  "publishedAt this = Some t \<Longrightarrow> publishedAt (fst (saves slugify store this steps)) = Some t"
proof (induction steps arbitrary: this store)
  case Nil
  then show ?case by simp
next
  case (Cons step steps)
  obtain edits now where step: "step = (edits, now)" by (cases step)
  let ?this' = "fst (save slugify now store (foldl apply_edit this edits))"
  have "publishedAt ?this' = Some t"
    using Cons.prems by (simp add: save_publishedAt)
  then show ?case unfolding step saves_step by (rule Cons.IH)
qed

lemma saves_isPublished_kept:
  "isPublished this \<Longrightarrow> isPublished (fst (saves slugify store this steps))"
proof (induction steps arbitrary: this store)
  case Nil
  then show ?case by simp
next
  case (Cons step steps)
  obtain edits now where step: "step = (edits, now)" by (cases step)
  let ?this' = "fst (save slugify now store (foldl apply_edit this edits))"
  have "isPublished ?this'"
    using Cons.prems by (simp add: save_isPublished)
  then show ?case unfolding step saves_step by (rule Cons.IH)
qed

lemma length_trim_le: "length (trim s) \<le> length s"
proof -
  have "length (trim s) \<le> length (dropWhile is_space s)"
    using length_dropWhile_le [of is_space "rev (dropWhile is_space s)"] by (simp add: trim_def)
  also have "\<dots> \<le> length s" by (rule length_dropWhile_le)
  finally show ?thesis .
qed

lemma pre_save_derive_excerpt:
  "excerpt (pre_save_derive slugify now this) =
     (if falsy (excerpt this) \<and> content this \<noteq> []
      then Some (trim (take 150 (content this)) @ ''...'') else excerpt this)"
  by (auto simp: pre_save_derive_def Let_def)

lemma derived_excerpt_short: "length (trim (take 150 c) @ ''...'') \<le> 153"
  using length_trim_le [of "take 150 c"] by simp

lemma save_keeps_valid:
  assumes "validation_errors this = []"
  shows "validation_errors (fst (save slugify now store this)) = []"
proof -
  let ?p = "fst (save slugify now store this)"
  have ex: "excerpt ?p = (if falsy (excerpt this) \<and> content this \<noteq> []
      then Some (trim (take 150 (content this)) @ ''...'') else excerpt this)"
    using assms by (simp add: save_valid pre_save_derive_excerpt)
  have "length e \<le> 300" if "excerpt ?p = Some e" for e
  proof (cases "falsy (excerpt this) \<and> content this \<noteq> []")
    case True
    then have "e = trim (take 150 (content this)) @ ''...''" using ex that by simp
    then show ?thesis using derived_excerpt_short [of "content this"] by simp
  next
    case False
    have "excerpt ?p = excerpt this" unfolding ex using False by (rule if_not_P)
    then have "excerpt this = Some e" using that by simp
    then show ?thesis using assms by (simp add: valid_iff)
  qed
  then show ?thesis using assms by (simp add: valid_iff)
qed

lemma SetStatus_keeps_valid:
  assumes "validation_errors this = []"
    and "s \<in> set [''draft'', ''published'', ''archived'']"
  shows "validation_errors (apply_edit this (SetStatus s)) = []"
  using assms by (simp add: valid_iff)

lemma testPost_valid: "validation_errors testPost = []"
  by (simp add: testPost_def new_Post_def valid_iff trim_def is_space_def)

lemma testPost_fields:
  "status testPost = ''draft''" "isPublished testPost = False" "publishedAt testPost = None"
  "modifiedPaths testPost = [''title'', ''content'', ''author'', ''category'']"
  "content testPost = ''This is a test post content.''"
  by (simp_all add: testPost_def new_Post_def)

lemma save_modifiedPaths:
  "validation_errors this = [] \<Longrightarrow> modifiedPaths (fst (save slugify now store this)) = []"
  by (simp add: save_valid)

text \<open>
  What every document reached from a new post satisfies: \<open>isPublished\<close> and
  \<open>publishedAt\<close> are set together, and a status \<open>published\<close> that has not been
  recorded in \<open>isPublished\<close> yet is still marked as modified.
\<close>

lemma publish_invariant_edits:
  assumes "isPublished this \<longleftrightarrow> publishedAt this \<noteq> None"
    and "status this = ''published'' \<longrightarrow> isPublished this \<or> isModified ''status'' this"
  shows "(isPublished (foldl apply_edit this es) \<longleftrightarrow> publishedAt (foldl apply_edit this es) \<noteq> None)
       \<and> (status (foldl apply_edit this es) = ''published'' \<longrightarrow>
            isPublished (foldl apply_edit this es) \<or> isModified ''status'' (foldl apply_edit this es))"
  using assms foldl_apply_edit_status [of this es]
    foldl_apply_edit_isModified_mono [of "''status''" this es]
  by auto

lemma publish_invariant_save:
  assumes "isPublished this \<longleftrightarrow> publishedAt this \<noteq> None"
    and "status this = ''published'' \<longrightarrow> isPublished this \<or> isModified ''status'' this"
  shows "(isPublished (fst (save slugify now store this))
            \<longleftrightarrow> publishedAt (fst (save slugify now store this)) \<noteq> None)
       \<and> (status (fst (save slugify now store this)) = ''published'' \<longrightarrow>
            isPublished (fst (save slugify now store this))
            \<or> isModified ''status'' (fst (save slugify now store this)))
       \<and> (validation_errors this = [] \<longrightarrow> status this = ''published'' \<longrightarrow>
            isPublished (fst (save slugify now store this)))"
proof (cases "validation_errors this = []")
  case True
  then show ?thesis using assms by (auto simp: save_isPublished save_publishedAt)
next
  case False
  then show ?thesis using assms by (simp add: save_invalid)
qed

lemma publish_invariant_saves:
  assumes "isPublished this \<longleftrightarrow> publishedAt this \<noteq> None"
    and "status this = ''published'' \<longrightarrow> isPublished this \<or> isModified ''status'' this"
  shows "(isPublished (fst (saves slugify store this steps))
            \<longleftrightarrow> publishedAt (fst (saves slugify store this steps)) \<noteq> None)
       \<and> (status (fst (saves slugify store this steps)) = ''published'' \<longrightarrow>
            isPublished (fst (saves slugify store this steps))
            \<or> isModified ''status'' (fst (saves slugify store this steps)))"
  using assms
proof (induction steps arbitrary: this store)
  case Nil
  then show ?case by simp
next
  case (Cons step steps)
  obtain edits now where step: "step = (edits, now)" by (cases step)
  let ?e = "foldl apply_edit this edits"
  let ?this' = "fst (save slugify now store ?e)"
  have e: "(isPublished ?e \<longleftrightarrow> publishedAt ?e \<noteq> None)
       \<and> (status ?e = ''published'' \<longrightarrow> isPublished ?e \<or> isModified ''status'' ?e)"
    using Cons.prems by (rule publish_invariant_edits)
  have s: "(isPublished ?this' \<longleftrightarrow> publishedAt ?this' \<noteq> None)
       \<and> (status ?this' = ''published'' \<longrightarrow> isPublished ?this' \<or> isModified ''status'' ?this')"
    using publish_invariant_save [of ?e slugify now store] e by blast
  show ?case unfolding step saves_step
    using s by (intro Cons.IH) blast+
qed

lemma new_Post_publish_invariant:
  "(isPublished (new_Post oid t c au cat) \<longleftrightarrow> publishedAt (new_Post oid t c au cat) \<noteq> None)
   \<and> (status (new_Post oid t c au cat) = ''published'' \<longrightarrow>
        isPublished (new_Post oid t c au cat) \<or> isModified ''status'' (new_Post oid t c au cat))"
  by (simp add: new_Post_def)

text \<open>
  Claim C3, as stated, fails: a post that is published and then archived keeps
  \<open>isPublished\<close> true although its status is no longer \<open>published\<close>.
\<close>

theorem publish_state_counterexample:
  "isPublished (fst (saves slugify_sample [] testPost
       [([], 1700000000000), ([SetStatus ''published''], 1700000001000),
        ([SetStatus ''archived''], 1700000002000)]))
   \<and> status (fst (saves slugify_sample [] testPost
       [([], 1700000000000), ([SetStatus ''published''], 1700000001000),
        ([SetStatus ''archived''], 1700000002000)])) = ''archived''"
proof -
  let ?p1 = "fst (save slugify_sample 1700000000000 [] testPost)"
  let ?s1 = "fst (snd (save slugify_sample 1700000000000 [] testPost))"
  let ?e1 = "apply_edit ?p1 (SetStatus ''published'')"
  let ?p2 = "fst (save slugify_sample 1700000001000 ?s1 ?e1)"
  let ?s2 = "fst (snd (save slugify_sample 1700000001000 ?s1 ?e1))"
  let ?e2 = "apply_edit ?p2 (SetStatus ''archived'')"
  let ?p3 = "fst (save slugify_sample 1700000002000 ?s2 ?e2)"
  have run: "fst (saves slugify_sample [] testPost
       [([], 1700000000000), ([SetStatus ''published''], 1700000001000),
        ([SetStatus ''archived''], 1700000002000)]) = ?p3"
    by (simp only: saves_step saves.simps(1) foldl.simps fst_conv)
  have p1: "status ?p1 = ''draft''" "publishedAt ?p1 = None" "validation_errors ?p1 = []"
    by (simp_all add: testPost_fields testPost_valid save_publishedAt save_keeps_valid
        isModified_def)
  have e1: "status ?e1 = ''published''" "isModified ''status'' ?e1" "publishedAt ?e1 = None"
    using p1 by (simp_all add: isModified_def)
  have v1: "validation_errors ?e1 = []"
    using p1(3) by (rule SetStatus_keeps_valid) simp
  have p2: "isPublished ?p2" "status ?p2 = ''published''"
    using e1 v1 by (simp_all add: save_isPublished)
  have "isPublished ?p3" "status ?p3 = ''archived''"
    using p2 by (simp_all add: save_isPublished)
  then show ?thesis unfolding run by simp
qed

text \<open>
  Claim C3, amended. For every sequence of saves of a content entity, with
  assignments to status, title and content between the saves: once \<open>publishedAt\<close>
  is non-null it is never cleared or overwritten by a later save, and once
  \<open>isPublished\<close> is true no save resets it. A save sets \<open>publishedAt\<close> (to the
  time of the save) and \<open>isPublished\<close> (to true) exactly when it passes
  validation, the status has been changed, the status is \<open>published\<close> and
  \<open>publishedAt\<close> is unset; no other save changes either field. Hence, for an
  entity created by \<open>new Post\<close>, \<open>isPublished\<close> is true exactly when
  \<open>publishedAt\<close> is non-null, and after every successful save a status
  \<open>published\<close> implies that \<open>isPublished\<close> is true. The converse does not
  hold: \<open>isPublished\<close> stays true when the status later leaves \<open>published\<close>.
\<close>

theorem publish_state_kept:
  "(publishedAt this = Some t \<longrightarrow> publishedAt (fst (saves slugify store this steps)) = Some t)
   \<and> (isPublished this \<longrightarrow> isPublished (fst (saves slugify store this steps)))
   \<and> (publishedAt (fst (save slugify now store this)) =
        (if validation_errors this = [] \<and> isModified ''status'' this
            \<and> status this = ''published'' \<and> publishedAt this = None
         then Some now else publishedAt this))
   \<and> (isPublished (fst (save slugify now store this)) \<longleftrightarrow>
        isPublished this
        \<or> (validation_errors this = [] \<and> isModified ''status'' this
            \<and> status this = ''published'' \<and> publishedAt this = None))
   \<and> (isPublished (fst (saves slugify store (new_Post oid ti c au cat) steps))
        \<longleftrightarrow> publishedAt (fst (saves slugify store (new_Post oid ti c au cat) steps)) \<noteq> None)
   \<and> (snd (snd (save slugify now' store'
          (foldl apply_edit (fst (saves slugify store (new_Post oid ti c au cat) steps)) edits))) = None
        \<and> status (fst (save slugify now' store'
          (foldl apply_edit (fst (saves slugify store (new_Post oid ti c au cat) steps)) edits)))
            = ''published'' \<longrightarrow>
        isPublished (fst (save slugify now' store'
          (foldl apply_edit (fst (saves slugify store (new_Post oid ti c au cat) steps)) edits))))"
proof -
  let ?p = "fst (saves slugify store (new_Post oid ti c au cat) steps)"
  let ?e = "foldl apply_edit ?p edits"
  have p: "(isPublished ?p \<longleftrightarrow> publishedAt ?p \<noteq> None)
       \<and> (status ?p = ''published'' \<longrightarrow> isPublished ?p \<or> isModified ''status'' ?p)"
    using new_Post_publish_invariant [of oid ti c au cat]
    by (intro publish_invariant_saves) blast+
  then have e: "(isPublished ?e \<longleftrightarrow> publishedAt ?e \<noteq> None)
       \<and> (status ?e = ''published'' \<longrightarrow> isPublished ?e \<or> isModified ''status'' ?e)"
    by (intro publish_invariant_edits) blast+
  have last: "validation_errors ?e = [] \<longrightarrow> status ?e = ''published'' \<longrightarrow>
      isPublished (fst (save slugify now' store' ?e))"
    using publish_invariant_save [of ?e slugify now' store'] e by blast
  have succ: "snd (snd (save slugify now' store' ?e)) = None \<longleftrightarrow> validation_errors ?e = []"
    by (rule save_rejected_iff)
  show ?thesis
    using p last succ
    by (simp add: saves_publishedAt_kept saves_isPublished_kept save_publishedAt save_isPublished)
qed

theorem publish_state_kept_witness:
  "publishedAt (fst (saves slugify_sample []
       (fst (save slugify_sample 1700000001000 [] (apply_edit testPost (SetStatus ''published''))))
       [([SetStatus ''archived''], 1700000002000), ([SetStatus ''published''], 1700000003000)]))
     = Some 1700000001000
   \<and> isPublished (fst (save slugify_sample 1700000001000 []
         (apply_edit testPost (SetStatus ''published''))))
   \<and> (isPublished (fst (saves slugify_sample [] (new_Post ''p1'' ''Test Post''
            ''This is a test post content.'' ''u1'' ''c1'') [([], 1700000000000)]))
        \<longleftrightarrow> publishedAt (fst (saves slugify_sample [] (new_Post ''p1'' ''Test Post''
            ''This is a test post content.'' ''u1'' ''c1'') [([], 1700000000000)])) \<noteq> None)"
proof -
  let ?e = "apply_edit testPost (SetStatus ''published'')"
  have e: "status ?e = ''published''" "isModified ''status'' ?e" "publishedAt ?e = None"
    by (simp_all add: testPost_fields isModified_def)
  have v: "validation_errors ?e = []"
    using testPost_valid by (rule SetStatus_keeps_valid) simp
  show ?thesis
    using publish_state_kept [of ?e 1700000001000 slugify_sample "[]" "[]" 1700000001000
        "''p1''" "''Test Post''" "''This is a test post content.''" "''u1''" "''c1''"
        1700000001000 "[]" "[]"]
      publish_state_kept [of "fst (save slugify_sample 1700000001000 [] ?e)"
        1700000001000 slugify_sample "[]"
        "[([SetStatus ''archived''], 1700000002000), ([SetStatus ''published''], 1700000003000)]"
        1700000002000 "''p1''" "''Test Post''" "''This is a test post content.''" "''u1''" "''c1''"
        1700000001000 "[]" "[]"]
      publish_state_kept [of testPost 0 slugify_sample "[]" "[([], 1700000000000)]"
        1700000000000 "''p1''" "''Test Post''" "''This is a test post content.''" "''u1''" "''c1''"
        1700000001000 "[]" "[]"]
      e v
    by (simp add: testPost_def)
qed

text \<open>
  Claim C8. \<open>viewCount\<close>, \<open>likeCount\<close> and \<open>commentCount\<close>, when non-negative,
  remain non-negative after every counter method; \<open>decrementLikeCount\<close> on a post
  whose \<open>likeCount\<close> is 0 leaves it 0, and \<open>decrementCommentCount\<close> on a post
  whose \<open>commentCount\<close> is 0 leaves it 0. No method raises by itself: on a
  document that passes validation the save it ends with is not rejected.
\<close>

theorem counters_non_negative:
  assumes "0 \<le> viewCount this" and "0 \<le> likeCount this" and "0 \<le> commentCount this"
  shows "0 \<le> viewCount (fst (counter_method cop slugify now store this))
       \<and> 0 \<le> likeCount (fst (counter_method cop slugify now store this))
       \<and> 0 \<le> commentCount (fst (counter_method cop slugify now store this))
       \<and> (likeCount this = 0 \<longrightarrow>
            likeCount (fst (decrementLikeCount slugify now store this)) = 0)
       \<and> (commentCount this = 0 \<longrightarrow>
            commentCount (fst (decrementCommentCount slugify now store this)) = 0)
       \<and> (validation_errors this = [] \<longrightarrow>
            snd (snd (counter_method cop slugify now store this)) = None)"
proof -
  have v: "validation_errors (markModified path (this\<lparr>viewCount := a\<rparr>)) = [] \<longleftrightarrow> validation_errors this = []"
    "validation_errors (markModified path (this\<lparr>likeCount := a\<rparr>)) = [] \<longleftrightarrow> validation_errors this = []"
    "validation_errors (markModified path (this\<lparr>commentCount := a\<rparr>)) = [] \<longleftrightarrow> validation_errors this = []"
    for path a
    by (simp_all add: valid_iff)
  show ?thesis
    using assms
    by (cases cop)
       (simp_all add: incrementViewCount_def incrementLikeCount_def decrementLikeCount_def
          incrementCommentCount_def decrementCommentCount_def save_rejected_iff v)
qed

theorem counters_non_negative_witness:
  "0 \<le> likeCount (fst (counter_method DecrementLikeCount slugify_sample 1700000000000 [] testPost))
   \<and> likeCount (fst (decrementLikeCount slugify_sample 1700000000000 [] testPost)) = 0
   \<and> commentCount (fst (decrementCommentCount slugify_sample 1700000000000 [] testPost)) = 0
   \<and> snd (snd (counter_method DecrementLikeCount slugify_sample 1700000000000 [] testPost)) = None"
  using counters_non_negative [of testPost DecrementLikeCount slugify_sample 1700000000000 "[]"]
  by (simp add: testPost_valid) (simp add: testPost_def new_Post_def)


section \<open>Reading time\<close>

lemma split_ws_from_not_Nil: "split_ws_from cur s \<noteq> []"
  by (induction cur s rule: split_ws_from.induct) simp_all

lemma split_ws_from_word:
  "\<forall>c\<in>set w. \<not> is_space c \<Longrightarrow> split_ws_from cur (w @ rest) = split_ws_from (cur @ w) rest"
  by (induction w arbitrary: cur) simp_all

lemma is_space_space: "is_space CHR '' ''"
  by (simp add: is_space_def)

lemma space_separated_Cons: "\<exists>rest. space_separated (w # ws) = w @ rest"
  by (cases ws) simp_all

lemma dropWhile_space_separated:
  assumes "w \<noteq> []" and "\<forall>c\<in>set w. \<not> is_space c"
  shows "dropWhile is_space (space_separated (w # ws)) = space_separated (w # ws)"
proof -
  obtain rest where r: "space_separated (w # ws) = w @ rest"
    using space_separated_Cons by blast
  obtain c cs where w: "w = c # cs" using assms(1) by (cases w) auto
  have "\<not> is_space c" using assms(2) w by simp
  then show ?thesis using r w by simp
qed

lemma length_split_ws_from_words:
  "ws \<noteq> [] \<Longrightarrow> \<forall>w\<in>set ws. w \<noteq> [] \<and> (\<forall>c\<in>set w. \<not> is_space c) \<Longrightarrow>
     length (split_ws_from cur (space_separated ws)) = length ws"
proof (induction ws arbitrary: cur rule: space_separated.induct)
  case 1
  then show ?case by simp
next
  case (2 w)
  then have "split_ws_from cur (w @ []) = split_ws_from (cur @ w) []"
    by (intro split_ws_from_word) simp
  then show ?case by simp
next
  case (3 w v ws)
  have w: "\<forall>c\<in>set w. \<not> is_space c" using "3.prems" by simp
  have v: "v \<noteq> []" "\<forall>c\<in>set v. \<not> is_space c" using "3.prems" by simp_all
  have "split_ws_from cur (space_separated (w # v # ws))
          = split_ws_from (cur @ w) (CHR '' '' # space_separated (v # ws))"
    using split_ws_from_word [OF w] by simp
  also have "\<dots> = (cur @ w) # split_ws_from [] (space_separated (v # ws))"
    using dropWhile_space_separated [OF v] by (simp add: is_space_space)
  finally show ?case using "3.IH" [of "[]"] "3.prems" by simp
qed

lemma length_split_ws_words:
  "ws \<noteq> [] \<Longrightarrow> \<forall>w\<in>set ws. w \<noteq> [] \<and> (\<forall>c\<in>set w. \<not> is_space c) \<Longrightarrow>
     length (split_ws (space_separated ws)) = length ws"
  by (simp add: split_ws_def length_split_ws_from_words)

lemma split_ws_Nil: "split_ws [] = [[]]"
  by (simp add: split_ws_def)

lemma reading_time_at_least_one: "1 \<le> \<lceil>real (length (split_ws s)) / 200\<rceil>"
proof -
  have "0 < length (split_ws s)"
    by (simp add: split_ws_def split_ws_from_not_Nil)
  then have "0 < real (length (split_ws s)) / 200" by simp
  then show ?thesis by linarith
qed

lemma length_split_ws_from_words_trailing:
  "ws \<noteq> [] \<Longrightarrow> \<forall>w\<in>set ws. w \<noteq> [] \<and> (\<forall>c\<in>set w. \<not> is_space c) \<Longrightarrow>
     length (split_ws_from cur (space_separated ws @ '' '')) = length ws + 1"
proof (induction ws arbitrary: cur rule: space_separated.induct)
  case 1
  then show ?case by simp
next
  case (2 w)
  then have "split_ws_from cur (w @ '' '') = split_ws_from (cur @ w) '' ''"
    by (intro split_ws_from_word) simp
  then show ?case by (simp add: is_space_space)
next
  case (3 w v ws)
  have w: "\<forall>c\<in>set w. \<not> is_space c" using "3.prems" by simp
  have v: "v \<noteq> []" "\<forall>c\<in>set v. \<not> is_space c" using "3.prems" by simp_all
  obtain x xs where x: "v = x # xs" using v(1) by (cases v) auto
  obtain rest where r: "space_separated (v # ws) = v @ rest"
    using space_separated_Cons by blast
  have keep: "dropWhile is_space (space_separated (v # ws) @ '' '')
      = space_separated (v # ws) @ '' ''"
    using v(2) x r by simp
  have "split_ws_from cur (space_separated (w # v # ws) @ '' '')
          = split_ws_from (cur @ w) (CHR '' '' # space_separated (v # ws) @ '' '')"
    using split_ws_from_word [OF w, of cur "CHR '' '' # space_separated (v # ws) @ '' ''"]
    by simp
  also have "\<dots> = (cur @ w) # split_ws_from [] (space_separated (v # ws) @ '' '')"
    using keep by (simp add: is_space_space)
  finally show ?case using "3.IH" [of "[]"] "3.prems" by simp
qed

lemma length_space_separated:
  "ws \<noteq> [] \<Longrightarrow> length (space_separated ws) + 1 = sum_list (map length ws) + length ws"
  by (induction ws rule: space_separated.induct) simp_all

lemma length_space_separated_replicate:
  "0 < n \<Longrightarrow> length (space_separated (replicate n w)) + 1 = n * length w + n"
  using length_space_separated [of "replicate n w"]
  by (simp add: map_replicate_const sum_list_replicate)

text \<open>
  Claim C7, as stated, fails for the word count: 200 words separated by single
  spaces and followed by one space are split into 201 pieces, the last one empty,
  and the save sets \<open>readingTime\<close> to 2, where the ceiling of 200 words divided by
  200 is 1.
\<close>

theorem readingTime_counterexample:
  "snd (snd (save slugify_sample 1700000000000 []
       (new_Post ''p1'' ''Test Post'' (space_separated (replicate 200 ''word'') @ '' '')
          ''u1'' ''c1''))) = None
   \<and> readingTime (fst (save slugify_sample 1700000000000 []
       (new_Post ''p1'' ''Test Post'' (space_separated (replicate 200 ''word'') @ '' '')
          ''u1'' ''c1''))) = 2
   \<and> \<lceil>real (length (replicate 200 ''word'')) / 200\<rceil> = (1 :: int)"
proof -
  let ?c = "space_separated (replicate 200 ''word'') @ '' ''"
  let ?p = "new_Post ''p1'' ''Test Post'' ?c ''u1'' ''c1''"
  have len: "length ?c = 1000"
    using length_space_separated_replicate [of 200 "''word''"] by simp
  have valid: "validation_errors ?p = []"
    using len by (simp add: new_Post_def valid_iff trim_def is_space_def)
  have "length (split_ws ?c) = 201"
    using length_split_ws_from_words_trailing [of "replicate 200 ''word''" "[]"]
    by (simp add: split_ws_def is_space_def)
  then have "readingTime (fst (save slugify_sample 1700000000000 [] ?p)) = 2"
    using valid by (simp add: save_readingTime new_Post_def)
  then show ?thesis using valid by (simp add: save_rejected_iff)
qed

text \<open>
  Claim C7, amended. On every save that passes validation (the content then has
  10 to 10000 characters), \<open>readingTime\<close> is recomputed as the ceiling of the word
  count divided by 200, where the word count is the number of pieces that
  splitting the content at runs of whitespace gives (whitespace at the start or at
  the end adds an empty piece), and is at least 1. A save with empty content is
  rejected by validation and leaves \<open>readingTime\<close> as it was; a new entity has
  \<open>readingTime\<close> 0. Content that consists of exactly 400 words separated by single
  spaces gives \<open>readingTime = 2\<close>.
\<close>

theorem readingTime_recomputed:
  "(validation_errors this = [] \<longrightarrow>
      snd (snd (save slugify now store this)) = None
      \<and> readingTime (fst (save slugify now store this))
          = \<lceil>real (length (split_ws (content this))) / 200\<rceil>
      \<and> 1 \<le> readingTime (fst (save slugify now store this)))
   \<and> (validation_errors this \<noteq> [] \<longrightarrow>
      snd (snd (save slugify now store this)) \<noteq> None
      \<and> readingTime (fst (save slugify now store this)) = readingTime this)
   \<and> (content this = [] \<longrightarrow> validation_errors this \<noteq> [])
   \<and> readingTime (new_Post oid ti c au cat) = 0
   \<and> (validation_errors this = [] \<and> length ws = 400
        \<and> (\<forall>w\<in>set ws. w \<noteq> [] \<and> (\<forall>ch\<in>set w. \<not> is_space ch))
        \<and> content this = space_separated ws \<longrightarrow>
      readingTime (fst (save slugify now store this)) = 2)"
proof -
  have words: "readingTime (fst (save slugify now store this)) = 2"
    if valid: "validation_errors this = []" and len: "length ws = 400"
      and ok: "\<forall>w\<in>set ws. w \<noteq> [] \<and> (\<forall>ch\<in>set w. \<not> is_space ch)"
      and c: "content this = space_separated ws"
  proof -
    have ne: "ws \<noteq> []" using len by auto
    have "length (split_ws (content this)) = 400"
      using length_split_ws_words [OF ne ok] len c by simp
    then show ?thesis using valid by (simp add: save_readingTime)
  qed
  have empty: "validation_errors this \<noteq> []" if "content this = []"
    using that valid_content_not_empty by blast
  show ?thesis
    using words empty reading_time_at_least_one [of "content this"]
    by (simp add: save_readingTime save_rejected_iff new_Post_def)
qed

theorem readingTime_recomputed_witness:
  "readingTime (fst (save slugify_sample 1700000000000 [] testPost)) = 1
   \<and> snd (snd (save slugify_sample 1700000000000 [] (testPost\<lparr>content := []\<rparr>))) \<noteq> None
   \<and> readingTime (fst (save slugify_sample 1700000000000 []
        (testPost\<lparr>content := space_separated (replicate 400 ''word'')\<rparr>))) = 2"
proof -
  have six: "split_ws ''This is a test post content.''
      = [''This'', ''is'', ''a'', ''test'', ''post'', ''content.'']"
    by (simp add: split_ws_def is_space_def)
  have one: "\<lceil>real (length (split_ws (content testPost))) / 200\<rceil> = 1"
    by (simp add: testPost_fields six)
  have len: "length (space_separated (replicate 400 ''word'')) = 1999"
    using length_space_separated_replicate [of 400 "''word''"] by simp
  have valid: "validation_errors (testPost\<lparr>content := space_separated (replicate 400 ''word'')\<rparr>) = []"
    using len testPost_valid by (simp add: valid_iff)
  have invalid: "validation_errors (testPost\<lparr>content := []\<rparr>) \<noteq> []"
    by (simp add: valid_iff)
  show ?thesis
    using readingTime_recomputed [of testPost slugify_sample 1700000000000 "[]"
        "''p1''" "''Test Post''" "''x''" "''u1''" "''c1''" "[]"]
      readingTime_recomputed [of "testPost\<lparr>content := []\<rparr>" slugify_sample 1700000000000 "[]"
        "''p1''" "''Test Post''" "''x''" "''u1''" "''c1''" "[]"]
      readingTime_recomputed [of "testPost\<lparr>content := space_separated (replicate 400 ''word'')\<rparr>"
        slugify_sample 1700000000000 "[]"
        "''p1''" "''Test Post''" "''x''" "''u1''" "''c1''" "replicate 400 ''word''"]
      one valid invalid testPost_valid
    by (simp add: is_space_def)
qed


section \<open>Slugs\<close>

subsection \<open>Lower case and trimming\<close>

lemma of_char_lower_char:
  "of_char (lower_char c) = (if 65 \<le> (of_char c :: nat) \<and> (of_char c :: nat) \<le> 90
      then of_char c + 32 else (of_char c :: nat))"
  by (simp add: lower_char_def)

lemma is_space_lower_char [simp]: "is_space (lower_char c) = is_space c"
  by (auto simp: is_space_def of_char_lower_char)

lemma lower_char_idem [simp]: "lower_char (lower_char c) = lower_char c"
proof (cases "65 \<le> (of_char c :: nat) \<and> (of_char c :: nat) \<le> 90")
  case True
  then have neg: "\<not> (65 \<le> (of_char (lower_char c) :: nat) \<and> (of_char (lower_char c) :: nat) \<le> 90)"
    by (simp add: of_char_lower_char)
  have "lower_char (lower_char c) =
      (if 65 \<le> (of_char (lower_char c) :: nat) \<and> (of_char (lower_char c) :: nat) \<le> 90
       then char_of (of_char (lower_char c) + 32 :: nat) else lower_char c)"
    by (rule lower_char_def)
  also have "\<dots> = lower_char c" using neg by (rule if_not_P)
  finally show ?thesis .
next
  case False
  then have "lower_char c = c" by (simp only: lower_char_def if_False)
  then show ?thesis by simp
qed

lemma toLowerCase_idem [simp]: "toLowerCase (toLowerCase s) = toLowerCase s"
  by (simp add: toLowerCase_def)

lemma toLowerCase_append [simp]: "toLowerCase (a @ b) = toLowerCase a @ toLowerCase b"
  by (simp add: toLowerCase_def)

lemma dropWhile_is_space_lower:
  "dropWhile is_space (map lower_char s) = map lower_char (dropWhile is_space s)"
  by (induction s) simp_all

lemma toLowerCase_trim: "toLowerCase (trim s) = trim (toLowerCase s)"
  by (simp add: toLowerCase_def trim_def dropWhile_is_space_lower rev_map)

lemma last_dropWhile: "dropWhile P xs \<noteq> [] \<Longrightarrow> last (dropWhile P xs) = last xs"
  by (induction xs) (auto split: if_splits)

lemma trim_hd_not_space:
  assumes "trim s \<noteq> []"
  shows "\<not> is_space (hd (trim s))"
proof -
  let ?z = "dropWhile is_space s"
  have z: "?z \<noteq> []"
  proof
    assume e: "?z = []"
    have "trim s = rev (dropWhile is_space (rev ?z))" by (simp only: trim_def)
    also have "\<dots> = []" unfolding e by simp
    finally show False using assms by simp
  qed
  have d: "dropWhile is_space (rev ?z) \<noteq> []" using assms by (simp add: trim_def)
  have "hd (trim s) = last (dropWhile is_space (rev ?z))"
    using d by (simp add: trim_def hd_rev)
  also have "\<dots> = last (rev ?z)" using d by (rule last_dropWhile)
  also have "\<dots> = hd ?z" using z by (simp add: last_rev)
  finally show ?thesis using z hd_dropWhile [of is_space s] by simp
qed

lemma trim_fixed:
  assumes "a \<noteq> []" and "\<not> is_space (hd a)" and "b \<noteq> []" and "\<not> is_space (last b)"
  shows "trim (a @ b) = a @ b"
proof -
  obtain x xs where a: "a = x # xs" using assms(1) by (cases a) auto
  have 1: "dropWhile is_space (a @ b) = a @ b" using a assms(2) by simp
  obtain y ys where b: "rev b = y # ys" using assms(3) by (cases "rev b") auto
  have "y = last b" using b assms(3) by (metis hd_rev list.sel(1))
  then have "\<not> is_space y" using assms(4) by simp
  then have 2: "dropWhile is_space (rev (a @ b)) = rev (a @ b)" using b by simp
  show ?thesis by (simp only: trim_def 1 2 rev_rev_ident)
qed

subsection \<open>Decimal digits\<close>

lemma digits_not_Nil: "digits n \<noteq> []"
  by (subst digits.simps) simp

lemma digit_char: "d < 10 \<Longrightarrow> of_char (char_of (48 + d :: nat)) = 48 + d"
  by simp

lemma digits_chars: "c \<in> set (digits n) \<Longrightarrow> 48 \<le> (of_char c :: nat) \<and> (of_char c :: nat) \<le> 57"
proof (induction n arbitrary: c rule: digits.induct)
  case (1 n)
  show ?case
  proof (cases "n < 10")
    case True
    then have "c = char_of (48 + n)" using "1.prems" by (subst (asm) digits.simps) simp
    then show ?thesis using True by simp
  next
    case False
    then have "c \<in> set (digits (n div 10)) \<or> c = char_of (48 + n mod 10)"
      using "1.prems" by (subst (asm) digits.simps) auto
    then show ?thesis
    proof
      assume "c \<in> set (digits (n div 10))"
      then show ?thesis using "1.IH" False by simp
    next
      assume c: "c = char_of (48 + n mod 10)"
      have "n mod 10 < 10" by simp
      then have "of_char c = 48 + n mod 10" unfolding c by (rule digit_char)
      then show ?thesis by simp
    qed
  qed
qed

lemma length_digits_ge2: "\<not> n < 10 \<Longrightarrow> 2 \<le> length (digits n)"
  using digits_not_Nil [of "n div 10"]
  by (subst digits.simps) (simp add: Suc_le_eq)

lemma digits_inj: "digits n = digits m \<Longrightarrow> n = m"
proof (induction n arbitrary: m rule: digits.induct)
  case (1 n)
  show ?case
  proof (cases "n < 10")
    case True
    have m: "m < 10"
    proof (rule ccontr)
      assume "\<not> m < 10"
      then have "2 \<le> length (digits m)" by (rule length_digits_ge2)
      moreover have "length (digits n) = 1" using True by (subst digits.simps) simp
      ultimately show False using "1.prems" by simp
    qed
    have "digits n = [char_of (48 + n)]" using True by (subst digits.simps) simp
    moreover have "digits m = [char_of (48 + m)]" using m by (subst digits.simps) simp
    ultimately have "char_of (48 + n) = (char_of (48 + m) :: char)" using "1.prems" by simp
    then have "of_char (char_of (48 + n) :: char) = (of_char (char_of (48 + m) :: char) :: nat)"
      by simp
    then show ?thesis using True m by simp
  next
    case False
    have m: "\<not> m < 10"
    proof
      assume "m < 10"
      then have "length (digits m) = 1" by (subst digits.simps) simp
      moreover have "2 \<le> length (digits n)" using False by (rule length_digits_ge2)
      ultimately show False using "1.prems" by simp
    qed
    have n': "digits n = digits (n div 10) @ [char_of (48 + n mod 10)]"
      using False by (subst digits.simps) simp
    have m': "digits m = digits (m div 10) @ [char_of (48 + m mod 10)]"
      using m by (subst digits.simps) simp
    from n' m' "1.prems" have pre: "digits (n div 10) = digits (m div 10)"
      and lst: "char_of (48 + n mod 10) = (char_of (48 + m mod 10) :: char)"
      by simp_all
    have q: "n div 10 = m div 10" using "1.IH" [OF False pre] .
    have "of_char (char_of (48 + n mod 10) :: char) = (of_char (char_of (48 + m mod 10) :: char) :: nat)"
      using lst by simp
    then have r: "n mod 10 = m mod 10"
      using digit_char [of "n mod 10"] digit_char [of "m mod 10"] by simp
    show ?thesis using q r by (metis div_mult_mod_eq)
  qed
qed

lemma show_int_not_Nil: "show_int i \<noteq> []"
  by (simp add: show_int_def digits_not_Nil)

lemma show_int_chars:
  "c \<in> set (show_int i) \<Longrightarrow> c = CHR ''-'' \<or> (48 \<le> (of_char c :: nat) \<and> (of_char c :: nat) \<le> 57)"
  using digits_chars by (auto simp: show_int_def split: if_splits)

lemma show_int_inj: "show_int i = show_int j \<Longrightarrow> i = j"
proof -
  assume eq: "show_int i = show_int j"
  have no_minus: "hd (digits n) \<noteq> CHR ''-''" for n
  proof
    assume h: "hd (digits n) = CHR ''-''"
    have "hd (digits n) \<in> set (digits n)" using digits_not_Nil by simp
    then have "48 \<le> (of_char (hd (digits n)) :: nat)" using digits_chars by blast
    then show False using h by simp
  qed
  show ?thesis
  proof (cases "i < 0")
    case True
    show ?thesis
    proof (cases "j < 0")
      case jn: True
      then have "digits (nat (- i)) = digits (nat (- j))" using eq True by (simp add: show_int_def)
      then have "nat (- i) = nat (- j)" by (rule digits_inj)
      then show ?thesis using True jn by simp
    next
      case False
      then have "CHR ''-'' # digits (nat (- i)) = digits (nat j)" using eq True by (simp add: show_int_def)
      then have "hd (digits (nat j)) = CHR ''-''" by (metis list.sel(1))
      then show ?thesis using no_minus by blast
    qed
  next
    case False
    show ?thesis
    proof (cases "j < 0")
      case True
      then have "digits (nat i) = CHR ''-'' # digits (nat (- j))" using eq False by (simp add: show_int_def)
      then have "hd (digits (nat i)) = CHR ''-''" by simp
      then show ?thesis using no_minus by blast
    next
      case jp: False
      then have "digits (nat i) = digits (nat j)" using eq False by (simp add: show_int_def)
      then have "nat i = nat j" by (rule digits_inj)
      then show ?thesis using False jp by simp
    qed
  qed
qed

lemma suffix_chars_plain:
  assumes "c \<in> set (''-'' @ show_int i)"
  shows "\<not> is_space c \<and> lower_char c = c"
proof -
  have "c = CHR ''-'' \<or> (48 \<le> (of_char c :: nat) \<and> (of_char c :: nat) \<le> 57)"
    using assms show_int_chars by auto
  then show ?thesis by (auto simp: is_space_def lower_char_def)
qed

lemma toLowerCase_suffix: "toLowerCase (''-'' @ show_int i) = ''-'' @ show_int i"
  unfolding toLowerCase_def using suffix_chars_plain [of _ i] by (intro map_idI) blast

lemma setter_suffix:
  assumes "trim (toLowerCase v) \<noteq> []"
  shows "trim (toLowerCase (trim (toLowerCase v) @ ''-'' @ show_int i))
           = trim (toLowerCase v) @ ''-'' @ show_int i"
proof -
  let ?s = "trim (toLowerCase v)"
  let ?x = "''-'' @ show_int i"
  have low: "toLowerCase ?s = ?s" by (simp add: toLowerCase_trim)
  have "toLowerCase (?s @ ?x) = ?s @ ?x"
    using low toLowerCase_suffix [of i] by (simp only: toLowerCase_append)
  moreover have "trim (?s @ ?x) = ?s @ ?x"
  proof (rule trim_fixed)
    show "?s \<noteq> []" by (rule assms)
    show "\<not> is_space (hd ?s)" using assms by (rule trim_hd_not_space)
    show "?x \<noteq> []" by simp
    have "last ?x \<in> set ?x" by (rule last_in_set) simp
    then show "\<not> is_space (last ?x)" using suffix_chars_plain by blast
  qed
  ultimately show ?thesis by simp
qed

subsection \<open>Two posts with one title\<close>

lemma pre_save_derive_slug:
  "slug (pre_save_derive slugify now this) =
     (if falsy (slug this) \<and> title this \<noteq> []
      then Some (trim (toLowerCase (slugify (title this)))) else slug this)"
  by (auto simp: pre_save_derive_def Let_def)

lemma pre_save_derive_isModified_slug:
  "isModified ''slug'' (pre_save_derive slugify now this) \<longleftrightarrow>
     isModified ''slug'' this
     \<or> (falsy (slug this) \<and> title this \<noteq> []
         \<and> slug this \<noteq> Some (trim (toLowerCase (slugify (title this)))))"
  by (auto simp: pre_save_derive_def Let_def isModified_def set_slug_def markModified_def)

lemma new_Post_fields:
  "post_id (new_Post oid t c au cat) = oid"
  "title (new_Post oid t c au cat) = trim t"
  "slug (new_Post oid t c au cat) = None"
  "isModified ''slug'' (new_Post oid t c au cat) = False"
  by (simp_all add: new_Post_def isModified_def)

lemma save_new_Post_slug:
  assumes "validation_errors (new_Post oid t c au cat) = []"
  shows "slug (fst (save slugify now store (new_Post oid t c au cat))) =
     (case findOne_slug store (Some (trim (toLowerCase (slugify (trim t))))) oid of
        None \<Rightarrow> Some (trim (toLowerCase (slugify (trim t))))
      | Some existingPost \<Rightarrow>
          Some (trim (toLowerCase (trim (toLowerCase (slugify (trim t))) @ ''-'' @ show_int now))))"
proof -
  let ?p = "pre_save_derive slugify now (new_Post oid t c au cat)"
  have t: "trim t \<noteq> []"
    using valid_title_not_empty [OF assms] by (simp add: new_Post_fields)
  have s: "slug ?p = Some (trim (toLowerCase (slugify (trim t))))"
    using t by (simp add: pre_save_derive_slug new_Post_fields falsy_def)
  have m: "isModified ''slug'' ?p"
    using t by (simp add: pre_save_derive_isModified_slug new_Post_fields falsy_def)
  have i: "post_id ?p = oid" by (simp add: new_Post_fields)
  show ?thesis
    using s m i by (simp add: save_valid [OF assms] pre_save_unique_def split: option.splits)
qed

lemma save_store:
  "validation_errors this = [] \<Longrightarrow>
     fst (snd (save slugify now store this)) =
       fst (save slugify now store this) # filter (\<lambda>q. post_id q \<noteq> post_id this) store"
  by (simp add: save_valid)

lemma findOne_slug_None_iff:
  "findOne_slug store s oid = None \<longleftrightarrow> (\<forall>q\<in>set store. slug q = s \<longrightarrow> post_id q = oid)"
  by (auto simp: findOne_slug_def find_None_iff)

lemma slugify_sample_Test_Post: "slugify_sample ''Test Post'' = ''test-post''"
  by (simp add: slugify_sample_def toLowerCase_def lower_char_def char_of_eq_iff)

lemma trim_Test_Post: "trim ''Test Post'' = ''Test Post''"
  by (simp add: trim_def is_space_def)

lemma setter_test_post: "trim (toLowerCase ''test-post'') = ''test-post''"
  by (simp add: trim_def is_space_def toLowerCase_def lower_char_def)

lemma show_int_sample: "show_int 1700000000000 = ''1700000000000''"
  by (simp add: show_int_def digits.simps char_of_eq_iff)

lemma sample_posts_valid:
  "validation_errors (new_Post ''p0'' ''Test Post'' ''An earlier post.'' ''u1'' ''c1'') = []"
  "validation_errors (new_Post ''p1'' ''Test Post'' ''This is a test post content.'' ''u1'' ''c1'') = []"
  "validation_errors (new_Post ''p2'' ''Test Post'' ''This is another test post content.'' ''u1'' ''c1'') = []"
  by (simp_all add: new_Post_def valid_iff trim_Test_Post)

lemma storedPost_slug: "slug storedPost = Some ''test-post'' \<and> post_id storedPost = ''p0''"
  by (simp add: storedPost_def save_new_Post_slug sample_posts_valid trim_Test_Post
      slugify_sample_Test_Post setter_test_post findOne_slug_def new_Post_fields)

text \<open>
  Claim C9, as stated, fails: when a post with the derived slug is already stored
  and the two saves read the same clock value, both new posts find the stored post
  and both get the same slug.
\<close>

theorem identical_titles_counterexample:
  "slug (fst (save slugify_sample 1700000000000 [storedPost]
                (new_Post ''p1'' ''Test Post'' ''This is a test post content.'' ''u1'' ''c1'')))
     = Some ''test-post-1700000000000''
   \<and> slug (fst (save slugify_sample 1700000000000
                (fst (snd (save slugify_sample 1700000000000 [storedPost]
                        (new_Post ''p1'' ''Test Post'' ''This is a test post content.''
                           ''u1'' ''c1''))))
                (new_Post ''p2'' ''Test Post'' ''This is another test post content.''
                   ''u1'' ''c1'')))
     = Some ''test-post-1700000000000''"
proof -
  have suffix: "trim (toLowerCase (''test-post'' @ ''-'' @ show_int 1700000000000))
      = ''test-post-1700000000000''"
    using setter_suffix [of "''test-post''" 1700000000000]
    by (simp add: setter_test_post show_int_sample)
  show ?thesis
    by (simp add: save_new_Post_slug sample_posts_valid trim_Test_Post slugify_sample_Test_Post
        setter_test_post findOne_slug_def save_store storedPost_slug new_Post_fields
        suffix [simplified])
qed

text \<open>
  Claim C9, amended. For every pair of new content entities that pass validation,
  saved one after the other with identical titles and no pre-supplied slug, whose
  derived slug is not empty: the second save's uniqueness check finds a stored
  entity with the same slug and a different id and appends a hyphen and the clock
  reading to the slug; the first slug is not empty; and the two slugs are distinct,
  provided that no entity with the derived slug was stored before the first save
  or the two saves read different clock values.
\<close>

theorem identical_titles_distinct_slugs:
  assumes ids: "i1 \<noteq> i2" "i2 \<notin> post_id ` set store"
    and v1: "validation_errors (new_Post i1 t c1 a1 k1) = []"
    and v2: "validation_errors (new_Post i2 t c2 a2 k2) = []"
    and s: "trim (toLowerCase (slugify (trim t))) \<noteq> []"
  shows "slug (fst (save slugify now2
                 (fst (snd (save slugify now1 store (new_Post i1 t c1 a1 k1))))
                 (new_Post i2 t c2 a2 k2)))
           = Some (trim (toLowerCase (slugify (trim t))) @ ''-'' @ show_int now2)
       \<and> slug (fst (save slugify now1 store (new_Post i1 t c1 a1 k1))) \<noteq> None
       \<and> slug (fst (save slugify now1 store (new_Post i1 t c1 a1 k1))) \<noteq> Some []
       \<and> ((\<forall>q\<in>set store. slug q \<noteq> Some (trim (toLowerCase (slugify (trim t)))))
            \<or> now1 \<noteq> now2 \<longrightarrow>
          slug (fst (save slugify now1 store (new_Post i1 t c1 a1 k1)))
            \<noteq> slug (fst (save slugify now2
                 (fst (snd (save slugify now1 store (new_Post i1 t c1 a1 k1))))
                 (new_Post i2 t c2 a2 k2))))"
proof -
  let ?s0 = "trim (toLowerCase (slugify (trim t)))"
  let ?r1 = "save slugify now1 store (new_Post i1 t c1 a1 k1)"
  let ?r2 = "save slugify now2 (fst (snd ?r1)) (new_Post i2 t c2 a2 k2)"
  have suffix: "trim (toLowerCase (?s0 @ ''-'' @ show_int n)) = ?s0 @ ''-'' @ show_int n" for n
    using s by (rule setter_suffix)
  have slug1: "slug (fst ?r1) =
      (case findOne_slug store (Some ?s0) i1 of None \<Rightarrow> Some ?s0
       | Some e \<Rightarrow> Some (?s0 @ ''-'' @ show_int now1))"
    using save_new_Post_slug [OF v1, of slugify now1 store] by (simp only: suffix)
  have slug2: "slug (fst ?r2) =
      (case findOne_slug (fst (snd ?r1)) (Some ?s0) i2 of None \<Rightarrow> Some ?s0
       | Some e \<Rightarrow> Some (?s0 @ ''-'' @ show_int now2))"
    using save_new_Post_slug [OF v2, of slugify now2 "fst (snd ?r1)"] by (simp only: suffix)
  have id1: "post_id (fst ?r1) = i1" by (simp add: new_Post_fields)
  have store1: "fst (snd ?r1) = fst ?r1 # filter (\<lambda>q. post_id q \<noteq> i1) store"
    using save_store [OF v1, of slugify now1 store] by (simp add: new_Post_fields)
  have found2: "findOne_slug (fst (snd ?r1)) (Some ?s0) i2 \<noteq> None"
  proof (cases "findOne_slug store (Some ?s0) i1")
    case None
    then have "slug (fst ?r1) = Some ?s0" using slug1 by simp
    then show ?thesis using id1 ids(1) store1 by (auto simp: findOne_slug_None_iff)
  next
    case (Some e)
    then obtain q where q: "q \<in> set store" "slug q = Some ?s0" "post_id q \<noteq> i1"
      using findOne_slug_None_iff [of store "Some ?s0" i1] by auto
    have "post_id q \<noteq> i2" using q(1) ids(2) by auto
    then show ?thesis using q store1 by (auto simp: findOne_slug_None_iff)
  qed
  then have two: "slug (fst ?r2) = Some (?s0 @ ''-'' @ show_int now2)"
    using slug2 by (auto split: option.splits)
  have differ: "slug (fst ?r1) \<noteq> slug (fst ?r2)"
    if fresh: "(\<forall>q\<in>set store. slug q \<noteq> Some ?s0) \<or> now1 \<noteq> now2"
  proof (cases "findOne_slug store (Some ?s0) i1")
    case None
    then have "slug (fst ?r1) = Some ?s0" using slug1 by simp
    then show ?thesis using two by simp
  next
    case (Some e)
    then have one: "slug (fst ?r1) = Some (?s0 @ ''-'' @ show_int now1)" using slug1 by simp
    have "\<not> (\<forall>q\<in>set store. slug q \<noteq> Some ?s0)"
      using Some findOne_slug_None_iff [of store "Some ?s0" i1] by auto
    then have "now1 \<noteq> now2" using fresh by blast
    then have "show_int now1 \<noteq> show_int now2" using show_int_inj by blast
    then show ?thesis using one two by simp
  qed
  have nonempty: "slug (fst ?r1) \<noteq> None \<and> slug (fst ?r1) \<noteq> Some []"
    using slug1 s by (auto split: option.splits)
  show ?thesis using two differ nonempty by blast
qed

theorem identical_titles_distinct_slugs_witness:
  "slug (fst (save slugify_sample 1700000000500
                (fst (snd (save slugify_sample 1700000000000 []
                        (new_Post ''p1'' ''Test Post'' ''This is a test post content.''
                           ''u1'' ''c1''))))
                (new_Post ''p2'' ''Test Post'' ''This is another test post content.''
                   ''u1'' ''c1'')))
     = Some (''test-post'' @ ''-'' @ show_int 1700000000500)
   \<and> slug (fst (save slugify_sample 1700000000000 []
                        (new_Post ''p1'' ''Test Post'' ''This is a test post content.''
                           ''u1'' ''c1'')))
     \<noteq> slug (fst (save slugify_sample 1700000000500
                (fst (snd (save slugify_sample 1700000000000 []
                        (new_Post ''p1'' ''Test Post'' ''This is a test post content.''
                           ''u1'' ''c1''))))
                (new_Post ''p2'' ''Test Post'' ''This is another test post content.''
                   ''u1'' ''c1'')))"
  using identical_titles_distinct_slugs [of "''p1''" "''p2''" "[]" "''Test Post''"
      "''This is a test post content.''" "''u1''" "''c1''"
      "''This is another test post content.''" "''u1''" "''c1''" slugify_sample
      1700000000500 1700000000000]
  by (auto simp: trim_Test_Post slugify_sample_Test_Post setter_test_post sample_posts_valid)

end
